theory Spec2Isabelle
  imports Main "HOL-Library.Char_ord" "HOL-Library.List_Lexorder" "HOL-Library.Multiset"
begin

section \<open>Python strings\<close>

text \<open>
  A Python \<^verbatim>\<open>str\<close> is modelled as a \<^typ>\<open>string\<close>, one \<^typ>\<open>char\<close> per code point, so
  the model covers the code points 0 to 255. Strings are compared as Python compares
  them: lexicographically by code point, a proper prefix being smaller.

  \<^verbatim>\<open>str.isspace\<close>, \<^verbatim>\<open>str.strip\<close> and the regular expression class \<^verbatim>\<open>\s\<close> agree on
  the white space of that range: TAB, LF, VT, FF, CR, the separators 0x1C to 0x1F, the
  space, NEL (0x85) and the no-break space (0xA0). The class \<^verbatim>\<open>\d\<close> holds the decimal
  digits, which below 256 are \<^verbatim>\<open>0\<close> to \<^verbatim>\<open>9\<close>.
\<close>

definition isspace :: "char \<Rightarrow> bool" where
  "isspace c =
    (let n = (of_char c :: nat)
     in (9 \<le> n \<and> n \<le> 13) \<or> (28 \<le> n \<and> n \<le> 32) \<or> n = 133 \<or> n = 160)"

definition isdigit :: "char \<Rightarrow> bool" where
  "isdigit c = (let n = (of_char c :: nat) in 48 \<le> n \<and> n \<le> 57)"

definition isalpha_ascii :: "char \<Rightarrow> bool" where
  "isalpha_ascii c =
    (let n = (of_char c :: nat) in (65 \<le> n \<and> n \<le> 90) \<or> (97 \<le> n \<and> n \<le> 122))"

text \<open>\<^verbatim>\<open>s.strip()\<close>\<close>

definition strip :: "string \<Rightarrow> string" where
  "strip s = rev (dropWhile isspace (rev (dropWhile isspace s)))"

text \<open>\<^verbatim>\<open>s.split(sep)\<close> for a separator of one character: one more piece than there are
  separators, so the empty string gives one empty piece.\<close>

fun split_on :: "char \<Rightarrow> string \<Rightarrow> string list" where
  "split_on sep [] = [[]]"
| "split_on sep (c # cs) =
    (if c = sep then [] # split_on sep cs
     else (case split_on sep cs of
             [] \<Rightarrow> [[c]]
           | w # ws \<Rightarrow> (c # w) # ws))"

text \<open>\<^verbatim>\<open>s.split(sep, 1)\<close>: the text before the first separator, and the text after it when
  there is a separator (\<^verbatim>\<open>parts[1]\<close> exists when \<^verbatim>\<open>len(parts) > 1\<close>).\<close>

definition split_first :: "char \<Rightarrow> string \<Rightarrow> string \<times> string option" where
  "split_first sep s =
    (takeWhile (\<lambda>c. c \<noteq> sep) s,
     case dropWhile (\<lambda>c. c \<noteq> sep) s of
       [] \<Rightarrow> None
     | _ # rest \<Rightarrow> Some rest)"

text \<open>\<^verbatim>\<open>s.lower()\<close> on the code points below 256: the ASCII capitals and the Latin-1
  capitals 0xC0 to 0xDE (0xD7, the multiplication sign, apart) move up by 32.\<close>

definition lower_char :: "char \<Rightarrow> char" where
  "lower_char c =
    (let n = (of_char c :: nat)
     in if (65 \<le> n \<and> n \<le> 90) \<or> (192 \<le> n \<and> n \<le> 222 \<and> n \<noteq> 215)
        then char_of (n + 32) else c)"

definition lower :: "string \<Rightarrow> string" where
  "lower s = map lower_char s"

text \<open>The value of a run of decimal digits, and \<^verbatim>\<open>int(s)\<close>: white space around the text
  is dropped (for \<^verbatim>\<open>int\<close> the separators 0x1C to 0x1F are not white space), one sign may
  lead, and the digits may be grouped by single underscores. \<^verbatim>\<open>None\<close> stands for the
  \<^verbatim>\<open>ValueError\<close> of a text that is no integer. The integers are Python's, unbounded;
  the interpreter's configurable limit on the number of digits of a conversion is not
  part of the model.\<close>

definition int_space :: "char \<Rightarrow> bool" where
  "int_space c =
    (let n = (of_char c :: nat) in (9 \<le> n \<and> n \<le> 13) \<or> n = 32 \<or> n = 133 \<or> n = 160)"

definition digits_value :: "string \<Rightarrow> int" where
  "digits_value ds = foldl (\<lambda>a c. 10 * a + (int (of_char c) - 48)) 0 ds"

definition int_body_ok :: "string \<Rightarrow> bool" where
  "int_body_ok body = list_all (\<lambda>p. p \<noteq> [] \<and> list_all isdigit p) (split_on (CHR ''_'') body)"

definition py_int :: "string \<Rightarrow> int option" where
  "py_int s =
    (let t = rev (dropWhile int_space (rev (dropWhile int_space s)));
         neg = (take 1 t = ''-'');
         body = (if take 1 t = ''-'' \<or> take 1 t = ''+'' then drop 1 t else t)
     in if int_body_ok body
        then Some ((if neg then - 1 else 1) * digits_value (filter (\<lambda>c. c \<noteq> CHR ''_'') body))
        else None)"

text \<open>\<^verbatim>\<open>str(n)\<close> for a non-negative integer: the decimal digits, no leading zero.\<close>

definition digit_char :: "nat \<Rightarrow> char" where
  "digit_char d = char_of (48 + d)"

fun str_nat :: "nat \<Rightarrow> string" where
  "str_nat n = (if n < 10 then [digit_char n] else str_nat (n div 10) @ [digit_char (n mod 10)])"

declare str_nat.simps [simp del]

section \<open>parse\_duration\<close>

text \<open>
  The pattern \<^verbatim>\<open>(?:(\d+)h)?(?:(\d+)m)?(?:(\d+)s)?$\<close> under \<^verbatim>\<open>re.match\<close>. Each optional
  group is tried greedily at the current position: a maximal run of digits followed by
  the unit letter. Giving a group up after it matched cannot help, since the text it
  would leave starts with a digit followed by that same letter, which neither a later
  group nor \<^verbatim>\<open>$\<close> accepts; so the first decomposition found is the only one.
  \<^verbatim>\<open>$\<close> holds at the end of the text and just before a line feed that ends it.
\<close>

datatype duration_error = InvalidFormat string | ZeroDuration string

definition match_unit :: "char \<Rightarrow> string \<Rightarrow> string option \<times> string" where
  "match_unit u s =
    (let ds = takeWhile isdigit s; r = dropWhile isdigit s
     in if ds \<noteq> [] \<and> take 1 r = [u] then (Some ds, drop 1 r) else (None, s))"

definition at_end :: "string \<Rightarrow> bool" where
  "at_end r = (r = [] \<or> r = [CHR 0x0A])"

definition duration_match :: "string \<Rightarrow> (string option \<times> string option \<times> string option) option" where
  "duration_match s =
    (let (hours, r1) = match_unit (CHR ''h'') s;
         (minutes, r2) = match_unit (CHR ''m'') r1;
         (seconds, r3) = match_unit (CHR ''s'') r2
     in if at_end r3 then Some (hours, minutes, seconds) else None)"

text \<open>\<^verbatim>\<open>if group: total_ms += int(group) * factor\<close>. A group that took part in the match
  is a non-empty run of digits, hence true as a condition, and \<^verbatim>\<open>int\<close> cannot raise
  on it (lemma \<open>py_int_digits\<close> below).\<close>

definition add_group :: "string option \<Rightarrow> int \<Rightarrow> int \<Rightarrow> int" where
  "add_group g factor total_ms =
    (case g of None \<Rightarrow> total_ms | Some ds \<Rightarrow> total_ms + digits_value ds * factor)"

definition parse_duration :: "string \<Rightarrow> duration_error + int" where
  "parse_duration duration_str =
    (case duration_match duration_str of
       None \<Rightarrow> Inl (InvalidFormat duration_str)
     | Some (hours, minutes, seconds) \<Rightarrow>
         (let total_ms = add_group seconds 1000
                (add_group minutes (60 * 1000)
                  (add_group hours (60 * 60 * 1000) 0))
          in if total_ms = 0 then Inl (ZeroDuration duration_str) else Inr total_ms))"

section \<open>The messages\<close>

text \<open>
  Modelled from the spec: the message classes of \<^verbatim>\<open>prom_pb2\<close> (generated code, not part
  of the sources). A label matcher has an operator code, a name and a value; the read
  hints have optional fields, an absent field being \<open>None\<close>, and an ordered grouping; a
  query has two time stamps, its matchers and its hints; a read request has its queries
  and the response types it accepts. The integers of the time stamps and hints are
  unbounded, as the spec has them. The fields \<^verbatim>\<open>type\<close> and \<^verbatim>\<open>value\<close> of a matcher are
  \<open>mtype\<close> and \<open>val\<close> here, and the field \<^verbatim>\<open>by\<close> of the hints is \<open>by_flag\<close>.
\<close>

datatype matcher_type = EQ | NEQ | RE | NRE

record label_matcher =
  mtype :: matcher_type
  name :: string
  val :: string

record read_hints =
  step_ms :: "int option"
  func :: "string option"
  start_ms :: "int option"
  end_ms :: "int option"
  grouping :: "string list"
  by_flag :: "bool option"
  range_ms :: "int option"

definition no_hints :: read_hints where
  "no_hints = \<lparr>step_ms = None, func = None, start_ms = None, end_ms = None,
                grouping = [], by_flag = None, range_ms = None\<rparr>"

record query =
  start_timestamp_ms :: int
  end_timestamp_ms :: int
  matchers :: "label_matcher list"
  hints :: read_hints

datatype response_type = SAMPLES

record read_request =
  queries :: "query list"
  accepted_response_types :: "response_type list"

section \<open>construct\_read\_request\<close>

text \<open>Every \<^verbatim>\<open>raise ValueError\<close> of the function is a constructor, named as the spec
  names the failure; its arguments are the texts the message quotes.\<close>

datatype error =
    MissingMetricName
  | EmptyMatcherBlock
  | InvalidMatcher string
  | UnsupportedOperator string
  | InvalidTimeRange duration_error
  | InvalidHintValue string string

subsection \<open>The metric name\<close>

text \<open>\<^verbatim>\<open>re.search(r'^\s*([a-zA-Z_:][a-zA-Z0-9_:]*)', main_query)\<close>: \<^verbatim>\<open>^\<close> holds at the
  start of the text only, the white space and the name are taken greedily, and a shorter
  run of white space leaves a white space character where the name has to start.\<close>

definition metric_start :: "char \<Rightarrow> bool" where
  "metric_start c = (isalpha_ascii c \<or> c = CHR ''_'' \<or> c = CHR '':'')"

definition metric_char :: "char \<Rightarrow> bool" where
  "metric_char c = (isalpha_ascii c \<or> isdigit c \<or> c = CHR ''_'' \<or> c = CHR '':'')"

definition metric_match :: "string \<Rightarrow> string option" where
  "metric_match main_query =
    (case dropWhile isspace main_query of
       [] \<Rightarrow> None
     | c # cs \<Rightarrow> if metric_start c then Some (c # takeWhile metric_char cs) else None)"

subsection \<open>The label matchers\<close>

text \<open>\<^verbatim>\<open>re.search(r'\{([^}]*)\}', main_query)\<close>: the first opening brace that a closing
  brace follows, and the text between it and the first closing brace after it. When no
  closing brace follows the first opening brace, none follows a later one.\<close>

definition label_matchers_match :: "string \<Rightarrow> string option" where
  "label_matchers_match main_query =
    (case dropWhile (\<lambda>c. c \<noteq> CHR ''{'') main_query of
       [] \<Rightarrow> None
     | _ # r \<Rightarrow> if CHR ''}'' \<in> set r then Some (takeWhile (\<lambda>c. c \<noteq> CHR ''}'') r) else None)"

text \<open>
  \<^verbatim>\<open>re.match(r'([a-zA-Z_][a-zA-Z0-9_]*)\s*(!=|=~|!~|=)\s*"([^"]*)"', lm)\<close>: the match
  starts at the first character and need not reach the end of the entry. The name, the
  white space and the value are taken greedily, and no shorter choice can match, because
  the character it would leave is of the class just given up. The operators are tried in
  the order of the pattern, and at most one alternative leads to a match: where the
  text has \<^verbatim>\<open>=~\<close>, the alternative \<^verbatim>\<open>=\<close> leaves a \<^verbatim>\<open>~\<close>, which is neither white space
  nor a quote (lemma \<open>lm_match_iff\<close> below relates the function to the pattern).
\<close>

definition ident_start :: "char \<Rightarrow> bool" where
  "ident_start c = (isalpha_ascii c \<or> c = CHR ''_'')"

definition ident_char :: "char \<Rightarrow> bool" where
  "ident_char c = (isalpha_ascii c \<or> isdigit c \<or> c = CHR ''_'')"

definition match_operator :: "string \<Rightarrow> (string \<times> string) option" where
  "match_operator s =
    (if take 2 s = ''!='' then Some (''!='', drop 2 s)
     else if take 2 s = ''=~'' then Some (''=~'', drop 2 s)
     else if take 2 s = ''!~'' then Some (''!~'', drop 2 s)
     else if take 1 s = ''='' then Some (''='', drop 1 s)
     else None)"

definition quoted :: "string \<Rightarrow> (string \<times> string) option" where
  "quoted s =
    (case s of
       [] \<Rightarrow> None
     | q # r \<Rightarrow>
         if q = CHR 0x22 \<and> CHR 0x22 \<in> set r
         then Some (takeWhile (\<lambda>c. c \<noteq> CHR 0x22) r, drop 1 (dropWhile (\<lambda>c. c \<noteq> CHR 0x22) r))
         else None)"

definition lm_match :: "string \<Rightarrow> (string \<times> string \<times> string) option" where
  "lm_match lm =
    (case lm of
       [] \<Rightarrow> None
     | c # cs \<Rightarrow>
         if ident_start c then
           (case match_operator (dropWhile isspace (dropWhile ident_char cs)) of
              None \<Rightarrow> None
            | Some (operator, r) \<Rightarrow>
                (case quoted (dropWhile isspace r) of
                   None \<Rightarrow> None
                 | Some (v, _) \<Rightarrow> Some (c # takeWhile ident_char cs, operator, v)))
         else None)"

text \<open>The loop over the entries: the first entry that does not match raises.\<close>

fun parse_matchers :: "string list \<Rightarrow> error + (string \<times> string \<times> string) list" where
  "parse_matchers [] = Inr []"
| "parse_matchers (lm # rest) =
    (case lm_match lm of
       None \<Rightarrow> Inl (InvalidMatcher lm)
     | Some t \<Rightarrow>
         (case parse_matchers rest of
            Inl e \<Rightarrow> Inl e
          | Inr ts \<Rightarrow> Inr (t # ts)))"

text \<open>\<^verbatim>\<open>[lm.strip() for lm in label_matchers_str.split(',') if lm.strip()]\<close>\<close>

definition matcher_entries :: "string \<Rightarrow> string list" where
  "matcher_entries label_matchers_str =
    filter (\<lambda>lm. lm \<noteq> []) (map strip (split_on (CHR '','') label_matchers_str))"

definition label_matchers_list_of :: "string \<Rightarrow> error + (string \<times> string \<times> string) list" where
  "label_matchers_list_of main_query =
    (let label_matchers_str =
           (case label_matchers_match main_query of Some g \<Rightarrow> g | None \<Rightarrow> [])
     in if label_matchers_str \<noteq> [] then
          (if matcher_entries label_matchers_str = [] then Inl EmptyMatcherBlock
           else parse_matchers (matcher_entries label_matchers_str))
        else Inr [])"

subsection \<open>The time range\<close>

text \<open>\<^verbatim>\<open>re.search(r'\[([0-9hms]+)\]', main_query)\<close>: the leftmost opening bracket that is
  followed by a non-empty maximal run of the characters \<^verbatim>\<open>0-9hms\<close> and then a closing
  bracket.\<close>

definition range_char :: "char \<Rightarrow> bool" where
  "range_char c = (isdigit c \<or> c = CHR ''h'' \<or> c = CHR ''m'' \<or> c = CHR ''s'')"

fun time_range_match :: "string \<Rightarrow> string option" where
  "time_range_match [] = None"
| "time_range_match (c # cs) =
    (if c = CHR ''['' \<and> takeWhile range_char cs \<noteq> []
        \<and> take 1 (dropWhile range_char cs) = '']''
     then Some (takeWhile range_char cs)
     else time_range_match cs)"

definition time_range_of :: "string \<Rightarrow> error + int" where
  "time_range_of main_query =
    (case time_range_match main_query of
       Some duration_str \<Rightarrow>
         (case parse_duration duration_str of
            Inl ve \<Rightarrow> Inl (InvalidTimeRange ve)
          | Inr time_range_ms \<Rightarrow> Inr time_range_ms)
     | None \<Rightarrow> Inr 3600000)"

subsection \<open>The read hints\<close>

text \<open>
  \<^verbatim>\<open>re.search(r'\{\s*read_hints\s*=\s*"([^"]*)"\s*\}', hints_query)\<close>. At one start
  position the match is determined: white space and the quoted text are taken greedily
  and a shorter choice leaves a character that the next item of the pattern refuses. The
  search takes the leftmost start position at which the pattern matches.
\<close>

definition read_hints_at :: "string \<Rightarrow> string option" where
  "read_hints_at s =
    (case s of
       [] \<Rightarrow> None
     | b # r0 \<Rightarrow>
         if b = CHR ''{'' \<and> take 10 (dropWhile isspace r0) = ''read_hints'' then
           (case dropWhile isspace (drop 10 (dropWhile isspace r0)) of
              [] \<Rightarrow> None
            | e # r1 \<Rightarrow>
                if e = CHR ''='' then
                  (case quoted (dropWhile isspace r1) of
                     None \<Rightarrow> None
                   | Some (g, r2) \<Rightarrow>
                       if take 1 (dropWhile isspace r2) = ''}'' then Some g else None)
                else None)
         else None)"

fun read_hints_match :: "string \<Rightarrow> string option" where
  "read_hints_match [] = None"
| "read_hints_match (c # cs) =
    (case read_hints_at (c # cs) of
       Some g \<Rightarrow> Some g
     | None \<Rightarrow> read_hints_match cs)"

text \<open>The variables the loop over the hints assigns: the hints of the query and the two
  time stamps.\<close>

record hint_vars =
  hints_v :: read_hints
  start_v :: int
  end_v :: int

text \<open>\<^verbatim>\<open>for g in val.split('|'): g = g.strip(); if g: hints.grouping.append(g)\<close>\<close>

definition grouping_values :: "string \<Rightarrow> string list" where
  "grouping_values v = filter (\<lambda>g. g \<noteq> []) (map strip (split_on (CHR ''|'') v))"

text \<open>\<^verbatim>\<open>key, val = kv.split('=', 1)\<close>, both stripped, for a stripped entry \<open>kv\<close> that
  holds an equals sign.\<close>

definition hint_key :: "string \<Rightarrow> string" where
  "hint_key kv = strip (takeWhile (\<lambda>c. c \<noteq> CHR ''='') kv)"

definition hint_val :: "string \<Rightarrow> string" where
  "hint_val kv = strip (drop 1 (dropWhile (\<lambda>c. c \<noteq> CHR ''='') kv))"

text \<open>One turn of the loop, for the entry \<open>kv0\<close> of \<^verbatim>\<open>read_hints_str.split(',')\<close>.\<close>

definition apply_hint :: "string \<Rightarrow> hint_vars \<Rightarrow> error + hint_vars" where
  "apply_hint kv0 st =
    (let kv = strip kv0
     in if CHR ''='' \<notin> set kv then Inr st
        else
          (let key = hint_key kv; v = hint_val kv
           in if key \<in> set [''start'', ''end'', ''step'', ''range''] then
                (case py_int v of
                   None \<Rightarrow> Inl (InvalidHintValue key v)
                 | Some val_int \<Rightarrow>
                     if key = ''start'' then
                       Inr (st\<lparr>hints_v := (hints_v st)\<lparr>start_ms := Some val_int\<rparr>,
                               start_v := val_int\<rparr>)
                     else if key = ''end'' then
                       Inr (st\<lparr>hints_v := (hints_v st)\<lparr>end_ms := Some val_int\<rparr>,
                               end_v := val_int\<rparr>)
                     else if key = ''step'' then
                       Inr (st\<lparr>hints_v := (hints_v st)\<lparr>step_ms := Some val_int\<rparr>\<rparr>)
                     else
                       Inr (st\<lparr>hints_v := (hints_v st)\<lparr>range_ms := Some val_int\<rparr>\<rparr>))
              else if key = ''func'' then
                Inr (st\<lparr>hints_v := (hints_v st)\<lparr>func := Some v\<rparr>\<rparr>)
              else if key = ''by'' then
                Inr (st\<lparr>hints_v := (hints_v st)\<lparr>by_flag := Some (lower v = ''true'')\<rparr>\<rparr>)
              else if key = ''grouping'' then
                Inr (st\<lparr>hints_v := (hints_v st)
                        \<lparr>grouping := grouping (hints_v st) @ grouping_values v\<rparr>\<rparr>)
              else Inr st))"

fun hints_loop :: "string list \<Rightarrow> hint_vars \<Rightarrow> error + hint_vars" where
  "hints_loop [] st = Inr st"
| "hints_loop (kv # kvs) st =
    (case apply_hint kv st of
       Inl e \<Rightarrow> Inl e
     | Inr st' \<Rightarrow> hints_loop kvs st')"

text \<open>\<^verbatim>\<open>if hints_query:\<close> holds for a text that is present and not empty.\<close>

definition parse_hints :: "string option \<Rightarrow> hint_vars \<Rightarrow> error + hint_vars" where
  "parse_hints hints_query st =
    (case hints_query of
       None \<Rightarrow> Inr st
     | Some hq \<Rightarrow>
         if hq \<noteq> [] then
           (case read_hints_match hq of
              None \<Rightarrow> Inr st
            | Some read_hints_str \<Rightarrow> hints_loop (split_on (CHR '','') read_hints_str) st)
         else Inr st)"

subsection \<open>The matchers of the request\<close>

definition operator_mapping :: "string \<Rightarrow> matcher_type option" where
  "operator_mapping = map_of [(''='', EQ), (''!='', NEQ), (''=~'', RE), (''!~'', NRE)]"

text \<open>The loop that adds the sorted label matchers to the query.\<close>

fun add_matchers :: "(string \<times> string \<times> string) list \<Rightarrow> error + label_matcher list" where
  "add_matchers [] = Inr []"
| "add_matchers ((label, operator, v) # rest) =
    (case operator_mapping operator of
       None \<Rightarrow> Inl (UnsupportedOperator operator)
     | Some t \<Rightarrow>
         (case add_matchers rest of
            Inl e \<Rightarrow> Inl e
          | Inr ms \<Rightarrow> Inr (\<lparr>mtype = t, name = label, val = v\<rparr> # ms)))"

text \<open>\<^verbatim>\<open>label_matchers_list.sort(key=lambda x: x[2])\<close>: a stable sort on the value.\<close>

definition sort_by_value :: "(string \<times> string \<times> string) list \<Rightarrow> (string \<times> string \<times> string) list" where
  "sort_by_value ms = sort_key (\<lambda>x. snd (snd x)) ms"

subsection \<open>The whole function\<close>

text \<open>The two parts of the query text: \<^verbatim>\<open>parts = query_string.split('@', 1)\<close>.\<close>

definition main_query_of :: "string \<Rightarrow> string" where
  "main_query_of query_string = strip (fst (split_first (CHR ''@'') query_string))"

definition hints_query_of :: "string \<Rightarrow> string option" where
  "hints_query_of query_string = map_option strip (snd (split_first (CHR ''@'') query_string))"

text \<open>The clock is a parameter: \<open>current_time_ms\<close> is the value of
  \<^verbatim>\<open>int(time.time() * 1000)\<close> at the call.\<close>

definition construct_read_request :: "int \<Rightarrow> string \<Rightarrow> error + read_request" where
  "construct_read_request current_time_ms query_string =
    (let main_query = main_query_of query_string;
         hints_query = hints_query_of query_string
     in case metric_match main_query of
          None \<Rightarrow> Inl MissingMetricName
        | Some metric_name \<Rightarrow>
       (case label_matchers_list_of main_query of
          Inl e \<Rightarrow> Inl e
        | Inr label_matchers_list \<Rightarrow>
       (case time_range_of main_query of
          Inl e \<Rightarrow> Inl e
        | Inr time_range_ms \<Rightarrow>
       (case parse_hints hints_query
               \<lparr>hints_v = no_hints,
                start_v = (if time_range_ms > 0 then current_time_ms - time_range_ms
                           else current_time_ms - 3600000),
                end_v = current_time_ms\<rparr> of
          Inl e \<Rightarrow> Inl e
        | Inr st \<Rightarrow>
       (case add_matchers (sort_by_value label_matchers_list) of
          Inl e \<Rightarrow> Inl e
        | Inr ms \<Rightarrow>
            Inr \<lparr>queries =
                   [\<lparr>start_timestamp_ms = start_v st,
                     end_timestamp_ms = end_v st,
                     matchers = \<lparr>mtype = EQ, name = ''__name__'', val = metric_name\<rparr> # ms,
                     hints = hints_v st\<rparr>],
                 accepted_response_types = [SAMPLES]\<rparr>)))))"

section \<open>The labels of a read response\<close>

text \<open>
  The response that \<open>remote_read\<close> sorts is the dictionary that \<^verbatim>\<open>MessageToDict\<close> made of
  the decoded message. A key of a dictionary may be absent (\<open>None\<close>): the code reads
  \<^verbatim>\<open>results\<close> and \<^verbatim>\<open>timeseries\<close> with \<^verbatim>\<open>get\<close> and a default, and \<^verbatim>\<open>labels\<close> and the
  \<^verbatim>\<open>name\<close> of a label by subscript, which raises \<^verbatim>\<open>KeyError\<close> on an absent key. The
  samples are not read; their type is a parameter.
\<close>

record label =
  label_name :: "string option"
  label_value :: "string option"

record 's timeseries =
  labels :: "label list option"
  samples :: 's

record 's result =
  timeseries :: "'s timeseries list option"

record 's response =
  results :: "'s result list option"

datatype key_error = KeyError string

text \<open>\<^verbatim>\<open>timeseries['labels'].sort(key=lambda label: label['name'])\<close>: the keys of all
  elements are computed first, then the list is sorted on them, stably.\<close>

definition sort_labels :: "label list \<Rightarrow> key_error + label list" where
  "sort_labels ls =
    (if list_all (\<lambda>l. label_name l \<noteq> None) ls
     then Inr (sort_key (\<lambda>l. the (label_name l)) ls)
     else Inl (KeyError ''name''))"

definition normalize_timeseries :: "'s timeseries \<Rightarrow> key_error + 's timeseries" where
  "normalize_timeseries ts =
    (case labels ts of
       None \<Rightarrow> Inl (KeyError ''labels'')
     | Some ls \<Rightarrow>
         (case sort_labels ls of
            Inl e \<Rightarrow> Inl e
          | Inr ls' \<Rightarrow> Inr (ts\<lparr>labels := Some ls'\<rparr>)))"

text \<open>A loop whose body may raise: the first error ends it.\<close>

fun for_each :: "('a \<Rightarrow> key_error + 'a) \<Rightarrow> 'a list \<Rightarrow> key_error + 'a list" where
  "for_each f [] = Inr []"
| "for_each f (x # xs) =
    (case f x of
       Inl e \<Rightarrow> Inl e
     | Inr y \<Rightarrow>
         (case for_each f xs of
            Inl e \<Rightarrow> Inl e
          | Inr ys \<Rightarrow> Inr (y # ys)))"

definition normalize_result :: "'s result \<Rightarrow> key_error + 's result" where
  "normalize_result r =
    (case timeseries r of
       None \<Rightarrow> Inr r
     | Some tss \<Rightarrow>
         (case for_each normalize_timeseries tss of
            Inl e \<Rightarrow> Inl e
          | Inr tss' \<Rightarrow> Inr (r\<lparr>timeseries := Some tss'\<rparr>)))"

definition normalize :: "'s response \<Rightarrow> key_error + 's response" where
  "normalize resp =
    (case results resp of
       None \<Rightarrow> Inr resp
     | Some rs \<Rightarrow>
         (case for_each normalize_result rs of
            Inl e \<Rightarrow> Inl e
          | Inr rs' \<Rightarrow> Inr (resp\<lparr>results := Some rs'\<rparr>)))"

section \<open>Auxiliary definitions for the statements\<close>

text \<open>The text of a group of a duration (its digits and its unit letter, or nothing when
  the group is absent), and the groups that are runs of digits.\<close>

definition group_text :: "string option \<Rightarrow> char \<Rightarrow> string" where
  "group_text g u = (case g of None \<Rightarrow> [] | Some ds \<Rightarrow> ds @ [u])"

definition digit_group :: "string option \<Rightarrow> bool" where
  "digit_group g = (case g of None \<Rightarrow> True | Some ds \<Rightarrow> ds \<noteq> [] \<and> list_all isdigit ds)"

text \<open>The matcher that the last loop of \<open>construct_read_request\<close> adds for a parsed
  triple whose operator is in \<open>operator_mapping\<close>.\<close>

definition to_matcher :: "string \<times> string \<times> string \<Rightarrow> label_matcher" where
  "to_matcher t = \<lparr>mtype = the (operator_mapping (fst (snd t))), name = fst t, val = snd (snd t)\<rparr>"

definition known_operator :: "string \<times> string \<times> string \<Rightarrow> bool" where
  "known_operator t = (operator_mapping (fst (snd t)) \<noteq> None)"

text \<open>The variables before the hints are read, and the request built from the metric
  name, the parsed triples and the variables after the hints are read.\<close>

definition initial_vars :: "int \<Rightarrow> int \<Rightarrow> hint_vars" where
  "initial_vars current_time_ms time_range_ms =
    \<lparr>hints_v = no_hints,
     start_v = (if time_range_ms > 0 then current_time_ms - time_range_ms
                else current_time_ms - 3600000),
     end_v = current_time_ms\<rparr>"

definition request_of :: "string \<Rightarrow> (string \<times> string \<times> string) list \<Rightarrow> hint_vars \<Rightarrow> read_request" where
  "request_of metric_name lml st =
    \<lparr>queries =
       [\<lparr>start_timestamp_ms = start_v st,
         end_timestamp_ms = end_v st,
         matchers = \<lparr>mtype = EQ, name = ''__name__'', val = metric_name\<rparr>
                    # map to_matcher (sort_by_value lml),
         hints = hints_v st\<rparr>],
     accepted_response_types = [SAMPLES]\<rparr>"

text \<open>The pattern of an entry, as a predicate: the entry \<open>lm\<close> starts with the name \<open>l\<close>,
  white space, the operator, white space and the quoted value \<open>v\<close>; anything may
  follow.\<close>

definition matcher_form :: "string \<Rightarrow> string \<Rightarrow> string \<Rightarrow> string \<Rightarrow> bool" where
  "matcher_form l operator v lm =
    (\<exists>ws1 ws2 rest.
       lm = l @ ws1 @ operator @ ws2 @ [CHR 0x22] @ v @ [CHR 0x22] @ rest
       \<and> l \<noteq> [] \<and> ident_start (hd l) \<and> list_all ident_char (tl l)
       \<and> list_all isspace ws1
       \<and> operator \<in> set [''!='', ''=~'', ''!~'', ''='']
       \<and> list_all isspace ws2
       \<and> CHR 0x22 \<notin> set v)"

text \<open>The text \<open>s\<close> holds a range block: an opening bracket, one or more of the
  characters \<^verbatim>\<open>0-9hms\<close>, a closing bracket.\<close>

definition has_range_block :: "string \<Rightarrow> bool" where
  "has_range_block s =
    (\<exists>pre d post. s = pre @ ''['' @ d @ '']'' @ post \<and> d \<noteq> [] \<and> list_all range_char d)"

text \<open>
  The entries of the read hints, for the statements about them: the pairs of key and
  value of the entries that hold an equals sign, in the order of the text; the values
  given for one key; and the last of them, if any. \<open>typed_ok\<close> holds for an entry whose
  value is an integer when its key asks for one.
\<close>

definition entries_of :: "string list \<Rightarrow> (string \<times> string) list" where
  "entries_of kvs =
    map (\<lambda>kv. (hint_key kv, hint_val kv)) (filter (\<lambda>kv. CHR ''='' \<in> set kv) (map strip kvs))"

definition values_of :: "string \<Rightarrow> string list \<Rightarrow> string list" where
  "values_of key kvs = map snd (filter (\<lambda>e. fst e = key) (entries_of kvs))"

definition last_of :: "string \<Rightarrow> string list \<Rightarrow> string option" where
  "last_of key kvs = (case values_of key kvs of [] \<Rightarrow> None | v # vs \<Rightarrow> Some (last (v # vs)))"

definition hint_values :: "string \<Rightarrow> string \<Rightarrow> string list" where
  "hint_values key read_hints_str = values_of key (split_on (CHR '','') read_hints_str)"

definition last_value :: "string \<Rightarrow> string \<Rightarrow> string option" where
  "last_value key read_hints_str = last_of key (split_on (CHR '','') read_hints_str)"

definition typed_ok :: "string \<times> string \<Rightarrow> bool" where
  "typed_ok e = (fst e \<notin> set [''start'', ''end'', ''step'', ''range''] \<or> py_int (snd e) \<noteq> None)"

definition hint_entries :: "string \<Rightarrow> (string \<times> string) list" where
  "hint_entries read_hints_str = entries_of (split_on (CHR '','') read_hints_str)"

text \<open>
  The series of a response, for the statements about the normaliser. \<open>keys_present\<close>
  holds for a series that has its labels, each with its name. \<open>series_rel R\<close> relates
  two responses of the same shape whose series are related by \<open>R\<close>, one by one.
  \<open>labels_sorted ts ts'\<close> says that \<open>ts'\<close> is \<open>ts\<close> with its labels sorted on the name,
  labels of one name in the order they had, and nothing else changed;
  \<open>labels_permuted ts ts2\<close> that \<open>ts2\<close> is \<open>ts\<close> with its labels in another order, no two
  different labels of \<open>ts\<close> having the same name; \<open>labels_reordered ts ts2\<close> that \<open>ts2\<close>
  is \<open>ts\<close> itself or \<open>ts\<close> with its labels permuted in that way, so that nothing is
  asked of a series that is left as it is.
\<close>

definition label_key :: "label \<Rightarrow> string" where
  "label_key l = the (label_name l)"

definition keys_present :: "'s timeseries \<Rightarrow> bool" where
  "keys_present ts =
    (case labels ts of None \<Rightarrow> False | Some ls \<Rightarrow> list_all (\<lambda>l. label_name l \<noteq> None) ls)"

definition result_series :: "'s result \<Rightarrow> 's timeseries list" where
  "result_series x = (case timeseries x of None \<Rightarrow> [] | Some tss \<Rightarrow> tss)"

definition series_of :: "'s response \<Rightarrow> 's timeseries list" where
  "series_of r = concat (map result_series (case results r of None \<Rightarrow> [] | Some rs \<Rightarrow> rs))"

definition series_rel ::
  "('s timeseries \<Rightarrow> 's timeseries \<Rightarrow> bool) \<Rightarrow> 's response \<Rightarrow> 's response \<Rightarrow> bool" where
  "series_rel R r r' =
    rel_option (list_all2 (\<lambda>x y. rel_option (list_all2 R) (timeseries x) (timeseries y)))
      (results r) (results r')"

definition labels_sorted :: "'s timeseries \<Rightarrow> 's timeseries \<Rightarrow> bool" where
  "labels_sorted ts ts' =
    (samples ts' = samples ts \<and>
     (\<exists>ls ls'. labels ts = Some ls \<and> labels ts' = Some ls'
        \<and> mset ls' = mset ls
        \<and> sorted (map label_key ls')
        \<and> (\<forall>k. filter (\<lambda>l. label_key l = k) ls' = filter (\<lambda>l. label_key l = k) ls)))"

definition labels_permuted :: "'s timeseries \<Rightarrow> 's timeseries \<Rightarrow> bool" where
  "labels_permuted ts ts2 =
    (samples ts2 = samples ts \<and>
     (\<exists>ls ls2. labels ts = Some ls \<and> labels ts2 = Some ls2
        \<and> mset ls2 = mset ls \<and> inj_on label_name (set ls)))"

definition labels_reordered :: "'s timeseries \<Rightarrow> 's timeseries \<Rightarrow> bool" where
  "labels_reordered ts ts2 = (ts2 = ts \<or> labels_permuted ts ts2)"

text \<open>The spec's normaliser as a total function: every label sequence is sorted on the
  name by a stable sort, and nothing else is touched.\<close>

definition sorted_series :: "'s timeseries \<Rightarrow> 's timeseries" where
  "sorted_series ts = ts\<lparr>labels := map_option (sort_key label_key) (labels ts)\<rparr>"

definition sorted_result :: "'s result \<Rightarrow> 's result" where
  "sorted_result x = x\<lparr>timeseries := map_option (map sorted_series) (timeseries x)\<rparr>"

definition sorted_response :: "'s response \<Rightarrow> 's response" where
  "sorted_response r = r\<lparr>results := map_option (map sorted_result) (results r)\<rparr>"

section \<open>Properties of parse\_duration\<close>

lemma of_char_digit_char: "d < 10 \<Longrightarrow> (of_char (digit_char d) :: nat) = 48 + d"
  by (simp add: digit_char_def)

lemma isdigit_digit_char: "d < 10 \<Longrightarrow> isdigit (digit_char d)"
  by (simp add: isdigit_def of_char_digit_char)

lemma str_nat_not_Nil: "str_nat n \<noteq> []"
  by (subst str_nat.simps) simp

lemma str_nat_digits: "list_all isdigit (str_nat n)"
proof (induction n rule: str_nat.induct)
  case (1 n)
  show ?case
  proof (cases "n < 10")
    case True
    then show ?thesis by (subst str_nat.simps) (simp add: isdigit_digit_char)
  next
    case False
    with 1 show ?thesis by (subst str_nat.simps) (simp add: isdigit_digit_char)
  qed
qed

lemma digits_value_snoc:
  "digits_value (ds @ [c]) = 10 * digits_value ds + (int (of_char c) - 48)"
  by (simp add: digits_value_def)

text \<open>Reading back the decimal text of a number gives the number.\<close>

lemma digits_value_str_nat: "digits_value (str_nat n) = int n"
proof (induction n rule: str_nat.induct)
  case (1 n)
  show ?case
  proof (cases "n < 10")
    case True
    then show ?thesis
      by (subst str_nat.simps) (simp add: digits_value_def of_char_digit_char)
  next
    case False
    then have "digits_value (str_nat (n div 10)) = int (n div 10)" using 1 by simp
    moreover have "10 * int (n div 10) + int (n mod 10) = int n" by presburger
    ultimately show ?thesis using False
      by (subst str_nat.simps) (simp add: digits_value_snoc of_char_digit_char)
  qed
qed

lemma match_unit_group:
  assumes "ds \<noteq> []" "list_all isdigit ds" "\<not> isdigit u"
  shows "match_unit u (ds @ u # r) = (Some ds, r)"
proof -
  have a: "\<forall>x\<in>set ds. isdigit x" using assms(2) by (simp add: list_all_iff)
  have "takeWhile isdigit (ds @ u # r) = ds"
    using a assms(3) by (simp add: takeWhile_append2)
  moreover have "dropWhile isdigit (ds @ u # r) = u # r"
    using a assms(3) by (simp add: dropWhile_append2)
  ultimately show ?thesis using assms(1) by (simp add: match_unit_def)
qed

lemma unit_not_digit:
  "\<not> isdigit (CHR ''h'')" "\<not> isdigit (CHR ''m'')" "\<not> isdigit (CHR ''s'')"
  by (simp_all add: isdigit_def)

text \<open>A text of three groups is matched with exactly these groups, whatever their
  digits (leading zeros included).\<close>

lemma duration_match_hms:
  assumes "dh \<noteq> []" "list_all isdigit dh" "dm \<noteq> []" "list_all isdigit dm"
    "dsec \<noteq> []" "list_all isdigit dsec"
  shows "duration_match (dh @ ''h'' @ dm @ ''m'' @ dsec @ ''s'')
         = Some (Some dh, Some dm, Some dsec)"
  using assms by (simp add: duration_match_def match_unit_group unit_not_digit at_end_def)

text \<open>
  Claim C7. For all non-negative integers \<open>h\<close>, \<open>m\<close>, \<open>s\<close> that are not all zero,
  \<open>parse_duration\<close> applied to the text \<^verbatim>\<open>{h}h{m}m{s}s\<close> returns
  \<open>h * 3600000 + m * 60000 + s * 1000\<close> milliseconds: each group contributes its value
  times the factor of its unit, and the contributions are summed.
\<close>

theorem parse_duration_hms:
  assumes "h \<noteq> 0 \<or> m \<noteq> 0 \<or> s \<noteq> 0"
  shows "parse_duration (str_nat h @ ''h'' @ str_nat m @ ''m'' @ str_nat s @ ''s'')
         = Inr (int h * 3600000 + int m * 60000 + int s * 1000)"
proof -
  have "duration_match (str_nat h @ ''h'' @ str_nat m @ ''m'' @ str_nat s @ ''s'')
        = Some (Some (str_nat h), Some (str_nat m), Some (str_nat s))"
    by (rule duration_match_hms) (simp_all add: str_nat_not_Nil str_nat_digits)
  then show ?thesis
    using assms
    by (auto simp add: parse_duration_def add_group_def digits_value_str_nat Let_def)
qed

theorem parse_duration_hms_witness:
  "parse_duration ''1h0m30s'' = Inr 3630000"
proof -
  have s: "str_nat 1 = ''1''" "str_nat 0 = ''0''" "str_nat 30 = ''30''"
    by code_simp+
  show ?thesis using parse_duration_hms [of 1 0 30] unfolding s by simp
qed

lemma match_unit_Nil: "match_unit u [] = (None, [])"
  by (simp add: match_unit_def)

lemma match_unit_other:
  assumes "list_all isdigit ds" "\<not> isdigit c" "c \<noteq> u"
  shows "match_unit u (ds @ c # r) = (None, ds @ c # r)"
proof -
  have a: "\<forall>x\<in>set ds. isdigit x" using assms(1) by (simp add: list_all_iff)
  have "dropWhile isdigit (ds @ c # r) = c # r"
    using a assms(2) by (simp add: dropWhile_append2)
  then show ?thesis using assms(3) by (simp add: match_unit_def)
qed

lemma match_unit_present:
  assumes "digit_group (Some ds)" "\<not> isdigit u"
  shows "match_unit u (group_text (Some ds) u @ r) = (Some ds, r)"
  using assms match_unit_group [of ds u r] by (simp add: group_text_def digit_group_def)

text \<open>Whichever groups are present, the pattern finds exactly these groups.\<close>

lemma duration_match_groups:
  assumes "digit_group gh" "digit_group gm" "digit_group gs"
  shows "duration_match (group_text gh (CHR ''h'') @ group_text gm (CHR ''m'')
            @ group_text gs (CHR ''s'')) = Some (gh, gm, gs)"
proof -
  have u: "CHR ''h'' \<noteq> CHR ''m''" "CHR ''h'' \<noteq> CHR ''s''" "CHR ''m'' \<noteq> CHR ''s''"
    "CHR ''m'' \<noteq> CHR ''h''" "CHR ''s'' \<noteq> CHR ''h''" "CHR ''s'' \<noteq> CHR ''m''"
    by simp_all
  show ?thesis
    using assms
    by (cases gh; cases gm; cases gs)
      (simp_all add: duration_match_def group_text_def digit_group_def match_unit_Nil
        match_unit_group match_unit_other unit_not_digit at_end_def)
qed

lemma parse_duration_groups:
  assumes "digit_group gh" "digit_group gm" "digit_group gs"
  shows "parse_duration (group_text gh (CHR ''h'') @ group_text gm (CHR ''m'')
            @ group_text gs (CHR ''s''))
         = (let total_ms = add_group gs 1000 (add_group gm 60000 (add_group gh 3600000 0));
                text = group_text gh (CHR ''h'') @ group_text gm (CHR ''m'')
                         @ group_text gs (CHR ''s'')
            in if total_ms = 0 then Inl (ZeroDuration text) else Inr total_ms)"
  using duration_match_groups [OF assms] by (simp add: parse_duration_def Let_def)

lemma split_on_absent: "sep \<notin> set s \<Longrightarrow> split_on sep s = [s]"
  by (induction s) auto

lemma digit_facts:
  assumes "isdigit c"
  shows "\<not> int_space c" "c \<noteq> CHR ''-''" "c \<noteq> CHR ''+''" "c \<noteq> CHR ''_''"
  using assms by (auto simp add: isdigit_def int_space_def Let_def)

text \<open>\<^verbatim>\<open>int\<close> of a non-empty run of digits is the value of the digits: the conversion
  that \<open>parse_duration\<close> applies to a group cannot raise.\<close>

lemma py_int_digits:
  assumes "ds \<noteq> []" and "list_all isdigit ds"
  shows "py_int ds = Some (digits_value ds)"
proof -
  from assms obtain c cs where ds: "ds = c # cs" by (cases ds) auto
  from assms obtain b bs where rds: "rev ds = b # bs" by (cases "rev ds") auto
  have d: "\<And>x. x \<in> set ds \<Longrightarrow> isdigit x" using assms(2) by (simp add: list_all_iff)
  have c: "isdigit c" using d ds by simp
  have "b \<in> set ds" using rds by (metis list.set_intros(1) set_rev)
  then have b: "isdigit b" using d by simp
  have 1: "dropWhile int_space ds = ds" using c by (simp add: ds digit_facts)
  have 2: "dropWhile int_space (rev ds) = rev ds" using b by (simp add: rds digit_facts)
  have 3: "CHR ''_'' \<notin> set ds" using d digit_facts(4) by blast
  then have 4: "filter (\<lambda>c. c \<noteq> CHR ''_'') ds = ds" by (auto simp add: filter_id_conv)
  have 5: "take 1 ds \<noteq> ''-''" "take 1 ds \<noteq> ''+''" using c by (auto simp add: ds digit_facts)
  have 6: "int_body_ok ds" using assms by (simp add: int_body_ok_def split_on_absent [OF 3])
  show ?thesis
    using 5 unfolding py_int_def by (simp add: 1 2 4 6)
qed

section \<open>The stages of construct\_read\_request\<close>

lemma match_operator_known:
  "match_operator s = Some (operator, r) \<Longrightarrow> operator_mapping operator \<noteq> None"
  by (auto simp add: match_operator_def operator_mapping_def split: if_splits)

lemma lm_match_known: "lm_match lm = Some t \<Longrightarrow> known_operator t"
  by (auto simp add: lm_match_def known_operator_def split: list.splits if_splits option.splits
      dest!: match_operator_known)

lemma parse_matchers_find:
  "parse_matchers es =
    (case find (\<lambda>e. lm_match e = None) es of
       Some e \<Rightarrow> Inl (InvalidMatcher e)
     | None \<Rightarrow> Inr (map (\<lambda>e. the (lm_match e)) es))"
  by (induction es) (auto split: option.splits)

lemma parse_matchers_known:
  "parse_matchers es = Inr ts \<Longrightarrow> list_all known_operator ts"
  by (induction es arbitrary: ts) (auto split: option.splits sum.splits dest: lm_match_known)

lemma label_matchers_list_of_known:
  "label_matchers_list_of m = Inr ts \<Longrightarrow> list_all known_operator ts"
  by (auto simp add: label_matchers_list_of_def Let_def split: if_splits dest: parse_matchers_known)

lemma add_matchers_known:
  "list_all known_operator ts \<Longrightarrow> add_matchers ts = Inr (map to_matcher ts)"
  by (induction ts) (auto simp add: known_operator_def to_matcher_def)

lemma sort_by_value_known:
  "list_all known_operator ts \<Longrightarrow> list_all known_operator (sort_by_value ts)"
  by (simp add: sort_by_value_def list_all_iff)

text \<open>The operators that the pattern of an entry captures are the four of the mapping,
  so the last loop never raises, and the function is the sequence of its four parsing
  stages.\<close>

lemma construct_read_request_stages:
  "construct_read_request now q =
    (case metric_match (main_query_of q) of
       None \<Rightarrow> Inl MissingMetricName
     | Some mn \<Rightarrow>
        (case label_matchers_list_of (main_query_of q) of
           Inl e \<Rightarrow> Inl e
         | Inr lml \<Rightarrow>
            (case time_range_of (main_query_of q) of
               Inl e \<Rightarrow> Inl e
             | Inr tr \<Rightarrow>
                (case parse_hints (hints_query_of q) (initial_vars now tr) of
                   Inl e \<Rightarrow> Inl e
                 | Inr st \<Rightarrow> Inr (request_of mn lml st)))))"
  by (auto simp add: construct_read_request_def Let_def initial_vars_def request_of_def
      add_matchers_known sort_by_value_known
      split: option.splits sum.splits dest!: label_matchers_list_of_known)


lemma parse_matchers_error:
  "parse_matchers es = Inl e \<Longrightarrow> \<exists>lm. e = InvalidMatcher lm"
  by (simp add: parse_matchers_find split: option.splits) blast

lemma label_matchers_list_of_error:
  "label_matchers_list_of m = Inl e \<Longrightarrow> e = EmptyMatcherBlock \<or> (\<exists>lm. e = InvalidMatcher lm)"
  by (auto simp add: label_matchers_list_of_def Let_def split: if_splits dest: parse_matchers_error)

lemma time_range_of_error:
  "time_range_of m = Inl e \<Longrightarrow> \<exists>d. e = InvalidTimeRange d"
  by (auto simp add: time_range_of_def split: option.splits sum.splits)

lemma apply_hint_error:
  "apply_hint kv st = Inl e \<Longrightarrow> \<exists>k v. e = InvalidHintValue k v"
  by (auto simp add: apply_hint_def Let_def split: if_splits option.splits)

lemma hints_loop_error:
  "hints_loop kvs st = Inl e \<Longrightarrow> \<exists>k v. e = InvalidHintValue k v"
  by (induction kvs arbitrary: st) (auto split: sum.splits dest: apply_hint_error)

lemma parse_hints_error:
  "parse_hints hq st = Inl e \<Longrightarrow> \<exists>k v. e = InvalidHintValue k v"
  by (auto simp add: parse_hints_def split: option.splits if_splits dest: hints_loop_error)

section \<open>The patterns of the block and of its entries\<close>

lemma takeWhile_run:
  assumes "list_all P xs" and "ys = [] \<or> \<not> P (hd ys)"
  shows "takeWhile P (xs @ ys) = xs" and "dropWhile P (xs @ ys) = ys"
  using assms by (induction xs) (auto simp add: takeWhile_eq_Nil_iff dropWhile_eq_self_iff)

lemma space_facts:
  assumes "isspace c"
  shows "\<not> ident_char c" "c \<noteq> CHR ''!''" "c \<noteq> CHR ''=''" "c \<noteq> CHR ''~''" "c \<noteq> CHR 0x22"
  using assms
  by (auto simp add: isspace_def ident_char_def isalpha_ascii_def isdigit_def Let_def)

lemma operator_char_facts:
  "\<not> ident_char (CHR ''!'')" "\<not> ident_char (CHR ''='')"
  "\<not> isspace (CHR ''!'')" "\<not> isspace (CHR ''='')" "\<not> isspace (CHR 0x22)"
  by (simp_all add: isspace_def ident_char_def isalpha_ascii_def isdigit_def)

lemma match_operator_Some:
  "match_operator s = Some (operator, r) \<Longrightarrow>
    s = operator @ r \<and> operator \<in> set [''!='', ''=~'', ''!~'', ''='']"
  by (auto simp add: match_operator_def split: if_splits)


lemma match_operator_form:
  assumes "operator \<in> set [''!='', ''=~'', ''!~'', ''='']" and "r \<noteq> []"
    and "hd r \<noteq> CHR ''~''"
  shows "match_operator (operator @ r) = Some (operator, r)"
proof -
  from assms(2) obtain x xs where r: "r = x # xs" by (cases r) auto
  show ?thesis using assms by (auto simp add: r match_operator_def)
qed

lemma lm_match_form:
  assumes "matcher_form l operator v lm"
  shows "lm_match lm = Some (l, operator, v)"
proof -
  from assms obtain ws1 ws2 rest where
    lm: "lm = l @ ws1 @ operator @ ws2 @ [CHR 0x22] @ v @ [CHR 0x22] @ rest"
    and l: "l \<noteq> []" "ident_start (hd l)" "list_all ident_char (tl l)"
    and w1: "list_all isspace ws1"
    and op: "operator \<in> set [''!='', ''=~'', ''!~'', ''='']"
    and w2: "list_all isspace ws2"
    and v: "CHR 0x22 \<notin> set v"
    unfolding matcher_form_def by blast
  from l(1) obtain c l' where cl: "l = c # l'" by (cases l) auto
  let ?r3 = "v @ [CHR 0x22] @ rest"
  let ?r2 = "ws2 @ [CHR 0x22] @ ?r3"
  let ?r1 = "operator @ ?r2"
  let ?r0 = "ws1 @ ?r1"
  have h1: "\<not> ident_char (hd ?r1)" "\<not> isspace (hd ?r1)"
    using op by (auto simp add: operator_char_facts)
  have h0: "\<not> ident_char (hd ?r0)"
    using h1 w1 by (cases ws1) (auto simp add: space_facts)
  have a: "takeWhile ident_char (l' @ ?r0) = l'" "dropWhile ident_char (l' @ ?r0) = ?r0"
    by (rule takeWhile_run; use l(3) h0 in \<open>simp add: cl\<close>)+
  have b: "dropWhile isspace ?r0 = ?r1"
    by (rule takeWhile_run; use w1 h1(2) in simp)
  have h2: "hd ?r2 \<noteq> CHR ''~''" "?r2 \<noteq> []"
    using w2 by (cases ws2; auto simp add: space_facts)+
  have c: "match_operator ?r1 = Some (operator, ?r2)"
    using op h2 by (intro match_operator_form) simp_all
  have d: "dropWhile isspace ?r2 = [CHR 0x22] @ ?r3"
    by (rule takeWhile_run; use w2 in \<open>simp add: operator_char_facts\<close>)
  have q: "list_all (\<lambda>c. c \<noteq> CHR 0x22) v" using v by (auto simp add: list_all_iff)
  have "takeWhile (\<lambda>c. c \<noteq> CHR 0x22) (v @ CHR 0x22 # rest) = v"
    "dropWhile (\<lambda>c. c \<noteq> CHR 0x22) (v @ CHR 0x22 # rest) = CHR 0x22 # rest"
    by (rule takeWhile_run; use q in simp)+
  then have e: "quoted ([CHR 0x22] @ ?r3) = Some (v, rest)"
    by (simp add: quoted_def)
  have "lm = c # (l' @ ?r0)" by (simp add: lm cl)
  then show ?thesis
    using l(2) by (simp only: lm_match_def list.case a b c d e cl list.sel if_True option.case prod.case)
qed


lemma dropWhile_upto:
  "x \<in> set xs \<Longrightarrow> \<exists>ys. dropWhile (\<lambda>c. c \<noteq> x) xs = x # ys"
  by (induction xs) auto

lemma quoted_Some:
  assumes "quoted s = Some (v, r)"
  shows "s = [CHR 0x22] @ v @ [CHR 0x22] @ r \<and> CHR 0x22 \<notin> set v"
proof -
  from assms obtain r0 where s: "s = CHR 0x22 # r0" and q: "CHR 0x22 \<in> set r0"
    and v: "v = takeWhile (\<lambda>c. c \<noteq> CHR 0x22) r0"
    and r: "r = drop 1 (dropWhile (\<lambda>c. c \<noteq> CHR 0x22) r0)"
    by (auto simp add: quoted_def split: list.splits if_splits)
  from dropWhile_upto [OF q] obtain xs where
    d: "dropWhile (\<lambda>c. c \<noteq> CHR 0x22) r0 = CHR 0x22 # xs" ..
  have "r0 = v @ CHR 0x22 # xs"
    using takeWhile_dropWhile_id [of "\<lambda>c. c \<noteq> CHR 0x22" r0] by (simp add: v d)
  moreover have "r = xs" by (simp add: r d)
  moreover have "CHR 0x22 \<notin> set v" by (auto simp add: v dest: set_takeWhileD)
  ultimately show ?thesis by (simp add: s)
qed

lemma lm_match_Some:
  assumes "lm_match lm = Some (l, operator, v)"
  shows "matcher_form l operator v lm"
proof -
  from assms obtain c cs r r' where lm: "lm = c # cs" and c: "ident_start c"
    and mo: "match_operator (dropWhile isspace (dropWhile ident_char cs)) = Some (operator, r)"
    and qu: "quoted (dropWhile isspace r) = Some (v, r')"
    and l: "l = c # takeWhile ident_char cs"
    by (auto simp add: lm_match_def split: list.splits if_splits option.splits)
  let ?r0 = "dropWhile ident_char cs"
  let ?ws1 = "takeWhile isspace ?r0"
  let ?ws2 = "takeWhile isspace r"
  from match_operator_Some [OF mo] have r1: "dropWhile isspace ?r0 = operator @ r"
    and op: "operator \<in> set [''!='', ''=~'', ''!~'', ''='']" by simp_all
  from quoted_Some [OF qu] have r2: "dropWhile isspace r = [CHR 0x22] @ v @ [CHR 0x22] @ r'"
    and v: "CHR 0x22 \<notin> set v" by simp_all
  have "cs = takeWhile ident_char cs @ ?r0" by simp
  also have "?r0 = ?ws1 @ dropWhile isspace ?r0" by simp
  also have "dropWhile isspace ?r0 = operator @ r" by (rule r1)
  also have "r = ?ws2 @ dropWhile isspace r" by simp
  also have "dropWhile isspace r = [CHR 0x22] @ v @ [CHR 0x22] @ r'" by (rule r2)
  finally have "lm = l @ ?ws1 @ operator @ ?ws2 @ [CHR 0x22] @ v @ [CHR 0x22] @ r'"
    by (simp add: lm l)
  moreover have "list_all ident_char (tl l)" "list_all isspace ?ws1" "list_all isspace ?ws2"
    by (auto simp add: l list_all_iff dest: set_takeWhileD)
  ultimately show ?thesis
    unfolding matcher_form_def using c op v l
    by (intro exI [where x = ?ws1] exI [where x = ?ws2] exI [where x = r'] conjI) simp_all
qed

text \<open>The function \<open>lm_match\<close> is the pattern: an entry is matched, with the name \<open>l\<close>,
  the operator and the value \<open>v\<close>, exactly when it starts with a text of the form name,
  white space, operator, white space, quoted value.\<close>

lemma lm_match_iff: "lm_match lm = Some (l, operator, v) \<longleftrightarrow> matcher_form l operator v lm"
  using lm_match_form lm_match_Some by blast

lemma lm_match_None_iff: "lm_match lm = None \<longleftrightarrow> \<not> (\<exists>l operator v. matcher_form l operator v lm)"
proof (cases "lm_match lm")
  case None
  then show ?thesis using lm_match_form by fastforce
next
  case (Some t)
  then show ?thesis using lm_match_Some [of lm "fst t" "fst (snd t)" "snd (snd t)"] by auto
qed

text \<open>The function \<open>label_matchers_match\<close> is the pattern: the block is the text between
  the first opening brace and the first closing brace after it.\<close>

lemma label_matchers_match_iff:
  "label_matchers_match s = Some c \<longleftrightarrow>
    (\<exists>pre post. s = pre @ ''{'' @ c @ ''}'' @ post \<and> CHR ''{'' \<notin> set pre \<and> CHR ''}'' \<notin> set c)"
proof
  assume a: "label_matchers_match s = Some c"
  let ?pre = "takeWhile (\<lambda>c. c \<noteq> CHR ''{'') s"
  from a obtain x r where d: "dropWhile (\<lambda>c. c \<noteq> CHR ''{'') s = x # r"
    and m: "CHR ''}'' \<in> set r" and c: "c = takeWhile (\<lambda>c. c \<noteq> CHR ''}'') r"
    by (auto simp add: label_matchers_match_def split: list.splits if_splits)
  from d have x: "x = CHR ''{''" using hd_dropWhile [of "\<lambda>c. c \<noteq> CHR ''{''" s] by auto
  from dropWhile_upto [OF m] obtain post where
    p: "dropWhile (\<lambda>c. c \<noteq> CHR ''}'') r = CHR ''}'' # post" ..
  have "r = c @ CHR ''}'' # post"
    using takeWhile_dropWhile_id [of "\<lambda>c. c \<noteq> CHR ''}''" r] by (simp add: c p)
  moreover have "s = ?pre @ x # r"
    using takeWhile_dropWhile_id [of "\<lambda>c. c \<noteq> CHR ''{''" s] by (simp add: d)
  ultimately have "s = ?pre @ ''{'' @ c @ ''}'' @ post" by (simp add: x)
  moreover have "CHR ''{'' \<notin> set ?pre" by (auto dest: set_takeWhileD)
  moreover have "CHR ''}'' \<notin> set c" by (auto simp add: c dest: set_takeWhileD)
  ultimately show "\<exists>pre post. s = pre @ ''{'' @ c @ ''}'' @ post
      \<and> CHR ''{'' \<notin> set pre \<and> CHR ''}'' \<notin> set c" by blast
next
  assume "\<exists>pre post. s = pre @ ''{'' @ c @ ''}'' @ post
      \<and> CHR ''{'' \<notin> set pre \<and> CHR ''}'' \<notin> set c"
  then obtain pre post where s: "s = pre @ ''{'' @ c @ ''}'' @ post"
    and p: "CHR ''{'' \<notin> set pre" and c: "CHR ''}'' \<notin> set c" by blast
  have "list_all (\<lambda>c. c \<noteq> CHR ''{'') pre" "list_all (\<lambda>x. x \<noteq> CHR ''}'') c"
    using p c by (auto simp add: list_all_iff)
  then have "dropWhile (\<lambda>c. c \<noteq> CHR ''{'') s = CHR ''{'' # c @ CHR ''}'' # post"
    and "takeWhile (\<lambda>x. x \<noteq> CHR ''}'') (c @ CHR ''}'' # post) = c"
    by (simp_all add: s takeWhile_run)
  then show "label_matchers_match s = Some c"
    by (simp add: label_matchers_match_def)
qed

section \<open>The label matcher block\<close>

lemma label_matchers_list_of_block:
  assumes "label_matchers_match m = Some c"
  shows "label_matchers_list_of m =
          (if c = [] then Inr []
           else if matcher_entries c = [] then Inl EmptyMatcherBlock
           else parse_matchers (matcher_entries c))"
  using assms by (simp add: label_matchers_list_of_def)

lemma label_matchers_list_of_no_block:
  "label_matchers_match m = None \<Longrightarrow> label_matchers_list_of m = Inr []"
  by (simp add: label_matchers_list_of_def)

text \<open>
  Claim C1, as amended. When a metric name leads the query and the content \<open>c\<close> of the
  first \<^verbatim>\<open>{...}\<close> block is not empty but yields no non-empty entry (white space and
  commas only), the function fails with \<open>EmptyMatcherBlock\<close>. A block with empty content, the
  bare \<^verbatim>\<open>{}\<close>, yields no label matcher and no failure, as a query without a block
  does (lemma \<open>label_matchers_list_of_no_block\<close>).
\<close>

theorem empty_matcher_block:
  assumes "metric_match (main_query_of q) = Some mn"
    and "main_query_of q = pre @ ''{'' @ c @ ''}'' @ post"
    and "CHR ''{'' \<notin> set pre" and "CHR ''}'' \<notin> set c"
    and "matcher_entries c = []"
  shows "(c \<noteq> [] \<longrightarrow> construct_read_request now q = Inl EmptyMatcherBlock)
       \<and> (c = [] \<longrightarrow> label_matchers_list_of (main_query_of q) = Inr [])"
proof -
  have "label_matchers_match (main_query_of q) = Some c"
    unfolding label_matchers_match_iff using assms(2-4) by blast
  then show ?thesis
    using assms(1,5)
    by (simp add: construct_read_request_stages label_matchers_list_of_block)
qed

theorem empty_matcher_block_witness:
  \<open>construct_read_request 10000000 ''metric{ , }[5s]'' = Inl EmptyMatcherBlock\<close>
proof -
  have a: \<open>metric_match (main_query_of ''metric{ , }[5s]'') = Some ''metric''\<close>
    by code_simp
  have b: \<open>main_query_of ''metric{ , }[5s]'' = ''metric'' @ ''{'' @ '' , '' @ ''}'' @ ''[5s]''\<close>
    by code_simp
  have c: \<open>CHR ''{'' \<notin> set ''metric''\<close> \<open>CHR ''}'' \<notin> set '' , ''\<close>
    by simp_all
  have d: \<open>matcher_entries '' , '' = []\<close>
    by code_simp
  show ?thesis using empty_matcher_block [OF a b c d, of 10000000] by simp
qed

text \<open>As the claim is stated it fails on the bare block, which is accepted.\<close>

theorem empty_matcher_block_counterexample:
  \<open>construct_read_request 10000000 ''metric{}[5s]'' =
    Inr \<lparr>queries =
          [\<lparr>start_timestamp_ms = 9995000, end_timestamp_ms = 10000000,
            matchers = [\<lparr>mtype = EQ, name = ''__name__'', val = ''metric''\<rparr>],
            hints = no_hints\<rparr>],
         accepted_response_types = [SAMPLES]\<rparr>\<close>
  by code_simp

section \<open>The entries of the block\<close>

lemma find_entries_not_Nil:
  "find P (matcher_entries c) = Some e \<Longrightarrow> c \<noteq> [] \<and> matcher_entries c \<noteq> []"
  by (auto simp add: matcher_entries_def strip_def)

lemma dropWhile_append_keep:
  "dropWhile P xs \<noteq> [] \<Longrightarrow> dropWhile P (xs @ ys) = dropWhile P xs @ ys"
  by (induction xs) auto

lemma takeWhile_append_keep:
  "dropWhile P xs \<noteq> [] \<Longrightarrow> takeWhile P (xs @ ys) = takeWhile P xs"
  by (induction xs) auto

lemma match_operator_Nil: "match_operator [] = None"
  by (simp add: match_operator_def)

lemma quoted_Nil: "quoted [] = None"
  by (simp add: quoted_def)

lemma match_operator_append:
  assumes "match_operator s = Some (operator, r)" and "r \<noteq> []"
  shows "match_operator (s @ j) = Some (operator, r @ j)"
proof -
  from assms obtain a b s' where s: "s = a # b # s'"
    by (cases s; cases "tl s") (auto simp add: match_operator_def split: if_splits)
  show ?thesis using assms by (auto simp add: s match_operator_def split: if_splits)
qed

lemma quoted_append:
  assumes "quoted s = Some (v, r)"
  shows "quoted (s @ j) = Some (v, r @ j)"
proof -
  from assms obtain r0 where s: "s = CHR 0x22 # r0" and q: "CHR 0x22 \<in> set r0"
    and v: "v = takeWhile (\<lambda>c. c \<noteq> CHR 0x22) r0"
    and r: "r = drop 1 (dropWhile (\<lambda>c. c \<noteq> CHR 0x22) r0)"
    by (auto simp add: quoted_def split: list.splits if_splits)
  from q have ne: "dropWhile (\<lambda>c. c \<noteq> CHR 0x22) r0 \<noteq> []"
    by (simp add: dropWhile_eq_Nil_conv)
  then obtain x xs where d: "dropWhile (\<lambda>c. c \<noteq> CHR 0x22) r0 = x # xs"
    by (cases "dropWhile (\<lambda>c. c \<noteq> CHR 0x22) r0") auto
  have "dropWhile (\<lambda>c. c \<noteq> CHR 0x22) (r0 @ j) = x # xs @ j"
    using ne by (simp add: dropWhile_append_keep d)
  moreover have "takeWhile (\<lambda>c. c \<noteq> CHR 0x22) (r0 @ j) = v"
    using ne by (simp add: takeWhile_append_keep v)
  ultimately show ?thesis
    using q by (simp add: s r d quoted_def)
qed

text \<open>Characters after the closing quote of an entry are not looked at.\<close>

lemma lm_match_trailing:
  assumes "lm_match e = Some t"
  shows "lm_match (e @ junk) = Some t"
proof -
  from assms obtain c cs operator r v r' where e: "e = c # cs" and c: "ident_start c"
    and mo: "match_operator (dropWhile isspace (dropWhile ident_char cs)) = Some (operator, r)"
    and qu: "quoted (dropWhile isspace r) = Some (v, r')"
    and t: "t = (c # takeWhile ident_char cs, operator, v)"
    by (auto simp add: lm_match_def split: list.splits if_splits option.splits)
  from mo have n1: "dropWhile isspace (dropWhile ident_char cs) \<noteq> []"
    using match_operator_Nil by fastforce
  then have n0: "dropWhile ident_char cs \<noteq> []"
    by (cases "dropWhile ident_char cs") simp_all
  from qu have n2: "dropWhile isspace r \<noteq> []"
    using quoted_Nil by fastforce
  then have n3: "r \<noteq> []"
    by (cases r) simp_all
  have a: "dropWhile isspace (dropWhile ident_char (cs @ junk))
           = dropWhile isspace (dropWhile ident_char cs) @ junk"
    using n0 n1 by (simp add: dropWhile_append_keep)
  have b: "takeWhile ident_char (cs @ junk) = takeWhile ident_char cs"
    using n0 by (simp add: takeWhile_append_keep)
  have d: "dropWhile isspace (r @ junk) = dropWhile isspace r @ junk"
    using n2 by (simp add: dropWhile_append_keep)
  show ?thesis
    using c by (simp add: e t lm_match_def a b d match_operator_append [OF mo n3] quoted_append [OF qu])
qed

text \<open>
  Claim C3, as amended. When a metric name leads the query, the first non-empty entry of
  the block that does not start with a text of the form name, operator, quoted value
  makes the function fail with \<open>InvalidMatcher\<close> for that entry. The pattern is matched
  at the start of the entry only: an entry that starts with such a text is matched, with
  that name, operator and value, whatever follows the closing quote.
\<close>

theorem invalid_matcher:
  assumes "metric_match (main_query_of q) = Some mn"
    and "main_query_of q = pre @ ''{'' @ c @ ''}'' @ post"
    and "CHR ''{'' \<notin> set pre" and "CHR ''}'' \<notin> set c"
    and "find (\<lambda>e. \<not> (\<exists>l operator v. matcher_form l operator v e)) (matcher_entries c) = Some e"
  shows "construct_read_request now q = Inl (InvalidMatcher e)
       \<and> (\<forall>l operator v e' junk. matcher_form l operator v e'
             \<longrightarrow> lm_match (e' @ junk) = Some (l, operator, v))"
proof -
  have b: "label_matchers_match (main_query_of q) = Some c"
    unfolding label_matchers_match_iff using assms(2-4) by blast
  have f: "find (\<lambda>e. lm_match e = None) (matcher_entries c) = Some e"
    using assms(5) by (simp add: lm_match_None_iff)
  have "construct_read_request now q = Inl (InvalidMatcher e)"
    using assms(1) b f find_entries_not_Nil [OF f]
    by (simp add: construct_read_request_stages label_matchers_list_of_block parse_matchers_find)
  moreover have "lm_match (e' @ junk) = Some (l, operator, v)"
    if "matcher_form l operator v e'" for l operator v e' junk
    using that by (intro lm_match_trailing lm_match_form)
  ultimately show ?thesis by blast
qed

theorem invalid_matcher_witness:
  \<open>construct_read_request 10000000 ''metric{a="1", b "2", c}'' = Inl (InvalidMatcher ''b "2"'')\<close>
proof -
  have a: \<open>metric_match (main_query_of ''metric{a="1", b "2", c}'') = Some ''metric''\<close>
    by code_simp
  have b: \<open>main_query_of ''metric{a="1", b "2", c}''
      = ''metric'' @ ''{'' @ ''a="1", b "2", c'' @ ''}'' @ []\<close>
    by code_simp
  have c: \<open>CHR ''{'' \<notin> set ''metric''\<close> \<open>CHR ''}'' \<notin> set ''a="1", b "2", c''\<close>
    by simp_all
  have \<open>find (\<lambda>e. lm_match e = None) (matcher_entries ''a="1", b "2", c'') = Some ''b "2"''\<close>
    by code_simp
  then have d: \<open>find (\<lambda>e. \<not> (\<exists>l operator v. matcher_form l operator v e))
      (matcher_entries ''a="1", b "2", c'') = Some ''b "2"''\<close>
    by (simp add: lm_match_None_iff)
  show ?thesis using invalid_matcher [OF a b c d, of 10000000] by blast
qed

text \<open>As the claim is stated it fails on an entry with characters after the closing
  quote, which is accepted.\<close>

theorem invalid_matcher_counterexample:
  \<open>construct_read_request 10000000 ''metric{a="1"xyz}'' =
    Inr \<lparr>queries =
          [\<lparr>start_timestamp_ms = 6400000, end_timestamp_ms = 10000000,
            matchers = [\<lparr>mtype = EQ, name = ''__name__'', val = ''metric''\<rparr>,
                        \<lparr>mtype = EQ, name = ''a'', val = ''1''\<rparr>],
            hints = no_hints\<rparr>],
         accepted_response_types = [SAMPLES]\<rparr>\<close>
  by code_simp

section \<open>The time range\<close>

lemma bracket_not_range: "\<not> range_char (CHR '']'')"
  by (simp add: range_char_def isdigit_def)

lemma time_range_match_sound:
  "time_range_match s = Some d \<Longrightarrow>
    \<exists>pre post. s = pre @ ''['' @ d @ '']'' @ post \<and> d \<noteq> [] \<and> list_all range_char d"
proof (induction s)
  case Nil
  then show ?case by simp
next
  case (Cons c cs)
  show ?case
  proof (cases "c = CHR ''['' \<and> takeWhile range_char cs \<noteq> []
        \<and> take 1 (dropWhile range_char cs) = '']''")
    case True
    with Cons.prems have d: "d = takeWhile range_char cs" by simp
    from True obtain post where p: "dropWhile range_char cs = CHR '']'' # post"
      by (cases "dropWhile range_char cs") auto
    have "cs = d @ CHR '']'' # post"
      using takeWhile_dropWhile_id [of range_char cs] by (simp add: d p)
    then have "c # cs = [] @ ''['' @ d @ '']'' @ post" using True by simp
    moreover have "d \<noteq> []" using True d by simp
    moreover have "list_all range_char d"
      by (auto simp add: d list_all_iff dest: set_takeWhileD)
    ultimately show ?thesis by blast
  next
    case False
    with Cons.prems have "time_range_match cs = Some d" by auto
    with Cons.IH obtain pre post where
      "cs = pre @ ''['' @ d @ '']'' @ post" "d \<noteq> []" "list_all range_char d" by blast
    then have "c # cs = (c # pre) @ ''['' @ d @ '']'' @ post" by simp
    with \<open>d \<noteq> []\<close> \<open>list_all range_char d\<close> show ?thesis by blast
  qed
qed

lemma time_range_match_complete:
  assumes "d \<noteq> []" "list_all range_char d"
  shows "time_range_match (pre @ ''['' @ d @ '']'' @ post) \<noteq> None"
proof (induction pre)
  case Nil
  have a: "\<forall>x\<in>set d. range_char x" using assms(2) by (simp add: list_all_iff)
  have "takeWhile range_char (d @ CHR '']'' # post) = d"
    using a bracket_not_range by (simp add: takeWhile_append2)
  moreover have "dropWhile range_char (d @ CHR '']'' # post) = CHR '']'' # post"
    using a bracket_not_range by (simp add: dropWhile_append2)
  ultimately show ?case using assms(1) by simp
next
  case (Cons c pre)
  then show ?case by auto
qed

lemma time_range_match_None_iff:
  "time_range_match s = None \<longleftrightarrow>
    \<not> (\<exists>pre d post. s = pre @ ''['' @ d @ '']'' @ post \<and> d \<noteq> [] \<and> list_all range_char d)"
proof
  assume "time_range_match s = None"
  then show "\<not> (\<exists>pre d post. s = pre @ ''['' @ d @ '']'' @ post \<and> d \<noteq> [] \<and> list_all range_char d)"
    using time_range_match_complete by blast
next
  assume n: "\<not> (\<exists>pre d post. s = pre @ ''['' @ d @ '']'' @ post \<and> d \<noteq> [] \<and> list_all range_char d)"
  show "time_range_match s = None"
  proof (cases "time_range_match s")
    case None
    then show ?thesis .
  next
    case (Some d)
    from time_range_match_sound [OF Some] n show ?thesis by blast
  qed
qed

lemma has_range_block_iff: "has_range_block s \<longleftrightarrow> time_range_match s \<noteq> None"
  using time_range_match_None_iff [of s] by (auto simp add: has_range_block_def)

lemma open_bracket_not_range: "\<not> range_char (CHR ''['')"
  by (simp add: range_char_def isdigit_def)

text \<open>Whether a range block starts at an opening bracket does not depend on what follows
  the next opening bracket.\<close>

lemma range_run_cut:
  "(takeWhile range_char (p @ CHR ''['' # r) \<noteq> []
      \<and> take 1 (dropWhile range_char (p @ CHR ''['' # r)) = '']'')
   \<longleftrightarrow> (takeWhile range_char p \<noteq> [] \<and> take 1 (dropWhile range_char p) = '']'')"
proof (cases "dropWhile range_char p = []")
  case True
  then have a: "\<forall>x\<in>set p. range_char x" by (simp add: dropWhile_eq_Nil_conv)
  then have b: "dropWhile range_char (p @ CHR ''['' # r) = CHR ''['' # r"
    using open_bracket_not_range by (simp add: dropWhile_append2)
  show ?thesis by (simp add: True b)
next
  case False
  then obtain x xs where d: "dropWhile range_char p = x # xs"
    by (cases "dropWhile range_char p") auto
  have "dropWhile range_char (p @ CHR ''['' # r) = x # xs @ CHR ''['' # r"
    "takeWhile range_char (p @ CHR ''['' # r) = takeWhile range_char p"
    using False by (simp_all add: dropWhile_append_keep takeWhile_append_keep d)
  then show ?thesis by (simp add: d)
qed

lemma time_range_match_skip:
  "time_range_match pre = None \<Longrightarrow>
    time_range_match (pre @ CHR ''['' # r) = time_range_match (CHR ''['' # r)"
proof (induction pre)
  case Nil
  then show ?case by simp
next
  case (Cons c p)
  from Cons.prems have n: "time_range_match p = None"
    and f: "\<not> (c = CHR ''['' \<and> takeWhile range_char p \<noteq> []
              \<and> take 1 (dropWhile range_char p) = '']'')"
    by (auto split: if_splits)
  from f range_run_cut [of p r]
  have "\<not> (c = CHR ''['' \<and> takeWhile range_char (p @ CHR ''['' # r) \<noteq> []
              \<and> take 1 (dropWhile range_char (p @ CHR ''['' # r)) = '']'')"
    by blast
  then have "time_range_match ((c # p) @ CHR ''['' # r) = time_range_match (p @ CHR ''['' # r)"
    by (simp only: append_Cons time_range_match.simps if_False)
  with Cons.IH [OF n] show ?case by simp
qed

text \<open>The search finds the first range block of the text.\<close>

lemma time_range_match_first:
  assumes "d \<noteq> []" and "list_all range_char d" and "\<not> has_range_block pre"
  shows "time_range_match (pre @ ''['' @ d @ '']'' @ post) = Some d"
proof -
  have n: "time_range_match pre = None" using assms(3) by (simp add: has_range_block_iff)
  have a: "\<forall>x\<in>set d. range_char x" using assms(2) by (simp add: list_all_iff)
  have "takeWhile range_char (d @ CHR '']'' # post) = d"
    using a bracket_not_range by (simp add: takeWhile_append2)
  moreover have "dropWhile range_char (d @ CHR '']'' # post) = CHR '']'' # post"
    using a bracket_not_range by (simp add: dropWhile_append2)
  ultimately have "time_range_match (CHR ''['' # d @ CHR '']'' # post) = Some d"
    using assms(1) by simp
  with time_range_match_skip [OF n, of "d @ CHR '']'' # post"] show ?thesis by simp
qed

text \<open>When the metric name and the label matchers parse, the content of the first range
  block decides: a content that \<open>parse_duration\<close> refuses makes the function fail with
  \<open>InvalidTimeRange\<close> around that error, and a content that it accepts is the time
  range.\<close>

lemma first_range_block:
  assumes "metric_match (main_query_of q) = Some mn"
    and "label_matchers_list_of (main_query_of q) = Inr lml"
  shows "(\<forall>pre d post e.
            main_query_of q = pre @ ''['' @ d @ '']'' @ post \<and> d \<noteq> [] \<and> list_all range_char d
            \<and> \<not> has_range_block pre \<and> parse_duration d = Inl e
            \<longrightarrow> construct_read_request now q = Inl (InvalidTimeRange e))
       \<and> (\<forall>pre d post t.
            main_query_of q = pre @ ''['' @ d @ '']'' @ post \<and> d \<noteq> [] \<and> list_all range_char d
            \<and> \<not> has_range_block pre \<and> parse_duration d = Inr t
            \<longrightarrow> time_range_of (main_query_of q) = Inr t)"
proof (intro conjI allI impI)
  fix pre d post e
  assume a: "main_query_of q = pre @ ''['' @ d @ '']'' @ post \<and> d \<noteq> [] \<and> list_all range_char d
            \<and> \<not> has_range_block pre \<and> parse_duration d = Inl e"
  then have "time_range_match (main_query_of q) = Some d"
    using time_range_match_first [of d pre post] by simp
  with a assms show "construct_read_request now q = Inl (InvalidTimeRange e)"
    by (simp add: construct_read_request_stages time_range_of_def)
next
  fix pre d post t
  assume a: "main_query_of q = pre @ ''['' @ d @ '']'' @ post \<and> d \<noteq> [] \<and> list_all range_char d
            \<and> \<not> has_range_block pre \<and> parse_duration d = Inr t"
  then have "time_range_match (main_query_of q) = Some d"
    using time_range_match_first [of d pre post] by simp
  with a show "time_range_of (main_query_of q) = Inr t"
    by (simp add: time_range_of_def)
qed

lemma first_range_block_zero:
  \<open>construct_read_request 10000000 ''metric{a="1"}[0s]'' = Inl (InvalidTimeRange (ZeroDuration ''0s''))\<close>
proof -
  have a: \<open>metric_match (main_query_of ''metric{a="1"}[0s]'') = Some ''metric''\<close>
    by code_simp
  have b: \<open>label_matchers_list_of (main_query_of ''metric{a="1"}[0s]'') = Inr [(''a'', ''='', ''1'')]\<close>
    by code_simp
  have c: \<open>main_query_of ''metric{a="1"}[0s]'' = ''metric{a="1"}'' @ ''['' @ ''0s'' @ '']'' @ []\<close>
    by code_simp
  have \<open>time_range_match ''metric{a="1"}'' = None\<close>
    by code_simp
  then have d: \<open>\<not> has_range_block ''metric{a="1"}''\<close>
    by (simp add: has_range_block_iff)
  have e: \<open>list_all range_char ''0s''\<close>
    by code_simp
  have f: \<open>parse_duration ''0s'' = Inl (ZeroDuration ''0s'')\<close>
    by code_simp
  show ?thesis using first_range_block [OF a b, of 10000000] c d e f by blast
qed

text \<open>
  Claim C4. A query with a bracket block whose content the duration parser refuses has
  to fail with \<open>InvalidTimeRange\<close>, the default range of 3600000 ms being for a query
  without a block. The code departs from this at the query \<^verbatim>\<open>metric[1d]\<close>:
  \<open>parse_duration\<close> refuses the content \<^verbatim>\<open>1d\<close>, and yet the function returns a request
  whose start is the clock value less the default range. The pattern of the search
  admits the characters \<^verbatim>\<open>0-9hms\<close> only, so that it does not see the block, while the
  comment at the default reserves it for a query with no time range.
\<close>

theorem range_block_ignored:
  \<open>parse_duration ''1d'' = Inl (InvalidFormat ''1d'')
   \<and> construct_read_request 10000000 ''metric[1d]'' =
    Inr \<lparr>queries =
          [\<lparr>start_timestamp_ms = 6400000, end_timestamp_ms = 10000000,
            matchers = [\<lparr>mtype = EQ, name = ''__name__'', val = ''metric''\<rparr>],
            hints = no_hints\<rparr>],
         accepted_response_types = [SAMPLES]\<rparr>\<close>
  by code_simp

section \<open>The matchers of the request\<close>

lemma never_unsupported:
  "construct_read_request now q \<noteq> Inl (UnsupportedOperator operator)"
  by (auto simp add: construct_read_request_stages split: option.splits sum.splits
      dest: label_matchers_list_of_error time_range_of_error parse_hints_error)

text \<open>
  Claim C2, as amended. No query makes the function fail with \<open>UnsupportedOperator\<close>:
  the pattern of an entry captures one of the four operators only, each of which the
  operator mapping knows, and no entry is matched with another operator token: such an
  entry is one that the pattern refuses, which gives \<open>InvalidMatcher\<close>.
\<close>

theorem unsupported_operator_unreachable:
  "construct_read_request now q \<noteq> Inl (UnsupportedOperator operator)
   \<and> (\<forall>e l op v. lm_match e = Some (l, op, v) \<longrightarrow> operator_mapping op \<noteq> None)
   \<and> (\<forall>e l op v. op \<notin> set [''!='', ''=~'', ''!~'', ''='']
         \<longrightarrow> lm_match e \<noteq> Some (l, op, v))"
proof (intro conjI allI impI)
  show "construct_read_request now q \<noteq> Inl (UnsupportedOperator operator)"
    by (rule never_unsupported)
  show "operator_mapping op \<noteq> None" if "lm_match e = Some (l, op, v)" for e l op v
    using lm_match_known [OF that] by (simp add: known_operator_def)
  show "lm_match e \<noteq> Some (l, op, v)"
    if "op \<notin> set [''!='', ''=~'', ''!~'', ''='']" for e l op v
    using that lm_match_Some [of e l op v] by (auto simp add: matcher_form_def)
qed

theorem unsupported_operator_unreachable_witness:
  \<open>construct_read_request 10000000 ''metric{a="1"}'' \<noteq> Inl (UnsupportedOperator ''='')
   \<and> lm_match ''a<"1"'' \<noteq> Some (''a'', ''<'', ''1'')\<close>
proof -
  have \<open>''<'' \<notin> set [''!='', ''=~'', ''!~'', ''='']\<close> by simp
  with unsupported_operator_unreachable [of 10000000 \<open>''metric{a="1"}''\<close> \<open>''=''\<close>]
  show ?thesis by blast
qed

text \<open>As the claim is stated it fails: an entry with the operator token \<^verbatim>\<open><\<close> gives
  \<open>InvalidMatcher\<close>.\<close>

theorem unsupported_operator_counterexample:
  \<open>construct_read_request 10000000 ''metric{a<"1"}'' = Inl (InvalidMatcher ''a<"1"'')\<close>
  by code_simp

text \<open>
  Claim C6. In every request that the function returns, whatever the number of label
  matchers, the matchers of the query start with the matcher of name \<^verbatim>\<open>__name__\<close>,
  operator \<open>EQ\<close> and the metric name as value; the label matchers, sorted on their
  value, follow it.
\<close>

theorem name_matcher_first:
  assumes "construct_read_request now q = Inr req"
  shows "\<exists>mn lml. metric_match (main_query_of q) = Some mn
           \<and> label_matchers_list_of (main_query_of q) = Inr lml
           \<and> map matchers (queries req)
               = [\<lparr>mtype = EQ, name = ''__name__'', val = mn\<rparr> # map to_matcher (sort_by_value lml)]"
  using assms
  by (auto simp add: construct_read_request_stages request_of_def split: option.splits sum.splits)

theorem name_matcher_first_witness:
  \<open>map matchers (queries (projr (construct_read_request 10000000 ''metric'')))
    = [[\<lparr>mtype = EQ, name = ''__name__'', val = ''metric''\<rparr>]]\<close>
proof -
  have a: \<open>construct_read_request 10000000 ''metric'' =
    Inr \<lparr>queries =
          [\<lparr>start_timestamp_ms = 6400000, end_timestamp_ms = 10000000,
            matchers = [\<lparr>mtype = EQ, name = ''__name__'', val = ''metric''\<rparr>],
            hints = no_hints\<rparr>],
         accepted_response_types = [SAMPLES]\<rparr>\<close>
    by code_simp
  from name_matcher_first [OF a] show ?thesis by (simp add: a)
qed

section \<open>The order of the label matchers\<close>

lemma filter_eq_replicate:
  "filter (\<lambda>x. k = x) xs = replicate (length (filter (\<lambda>x. k = x) xs)) k"
  by (induction xs) auto

lemma filter_eq_mset:
  assumes "mset ys = mset xs"
  shows "filter (\<lambda>x. k = x) ys = filter (\<lambda>x. k = x) xs"
proof -
  have "mset (filter (\<lambda>x. k = x) ys) = mset (filter (\<lambda>x. k = x) xs)"
    using assms by simp
  then have "length (filter (\<lambda>x. k = x) ys) = length (filter (\<lambda>x. k = x) xs)"
    by (rule mset_eq_length)
  then show ?thesis
    using filter_eq_replicate [of k ys] filter_eq_replicate [of k xs] by simp
qed

text \<open>A stable sort forgets the order of its input when different elements have
  different keys.\<close>

lemma sort_key_perm:
  fixes f :: "'a \<Rightarrow> 'b::linorder"
  assumes m: "mset ys = mset xs" and inj: "inj_on f (set xs)"
  shows "sort_key f ys = sort_key f xs"
proof (rule properties_for_sort_key)
  show "mset (sort_key f xs) = mset ys" using m by simp
  show "sorted (map f (sort_key f xs))" by simp
  fix k assume "k \<in> set (sort_key f xs)"
  then have k: "k \<in> set xs" by simp
  have s: "set ys = set xs" using m by (rule mset_eq_setD)
  have "filter (\<lambda>x. f k = f x) (sort_key f xs) = filter (\<lambda>x. f k = f x) xs"
    using sort_key_stable [of f "f k" xs] by (simp add: eq_commute [of "f k"])
  also have "\<dots> = filter (\<lambda>x. k = x) xs"
    using inj k by (intro filter_cong) (auto dest: inj_onD)
  also have "\<dots> = filter (\<lambda>x. k = x) ys"
    by (rule filter_eq_mset) (simp add: m)
  also have "\<dots> = filter (\<lambda>x. f k = f x) ys"
    using inj k s by (intro filter_cong) (auto dest: inj_onD)
  finally show "filter (\<lambda>x. f k = f x) (sort_key f xs) = filter (\<lambda>x. f k = f x) ys" .
qed

lemma val_to_matcher: "val (to_matcher t) = snd (snd t)"
  by (simp add: to_matcher_def)

lemma sorted_values: "sorted (map val (map to_matcher (sort_by_value lml)))"
  by (simp add: sort_by_value_def comp_def val_to_matcher)

lemma stable_values:
  "filter (\<lambda>m. val m = v) (map to_matcher (sort_by_value lml))
   = map to_matcher (filter (\<lambda>t. snd (snd t) = v) lml)"
  by (simp add: sort_by_value_def filter_map comp_def val_to_matcher sort_key_stable)

lemma sort_by_value_perm:
  "mset lml' = mset lml \<Longrightarrow> inj_on (\<lambda>t. snd (snd t)) (set lml)
    \<Longrightarrow> sort_by_value lml' = sort_by_value lml"
  unfolding sort_by_value_def by (rule sort_key_perm)

lemma request_tail:
  assumes "construct_read_request now q = Inr req"
  shows "\<exists>lml. label_matchers_list_of (main_query_of q) = Inr lml
           \<and> map (\<lambda>qr. tl (matchers qr)) (queries req) = [map to_matcher (sort_by_value lml)]"
  using assms
  by (auto simp add: construct_read_request_stages request_of_def split: option.splits sum.splits)

text \<open>
  Claim C5, as amended. In every request that the function returns, the label matchers
  are sorted ascending on their value, and matchers of equal value keep the order they
  have in the query (the sort is stable). Any other query that parses to the same
  multiset of matchers gives the same sequence, provided no two different matchers of
  the multiset have the same value.
\<close>

theorem matchers_sorted_by_value:
  assumes "construct_read_request now q = Inr req"
  shows "\<exists>lml ms. label_matchers_list_of (main_query_of q) = Inr lml
      \<and> map (\<lambda>qr. tl (matchers qr)) (queries req) = [ms]
      \<and> sorted (map val ms)
      \<and> (\<forall>v. filter (\<lambda>m. val m = v) ms = map to_matcher (filter (\<lambda>t. snd (snd t) = v) lml))
      \<and> (\<forall>now' q' req' lml'.
            construct_read_request now' q' = Inr req'
            \<and> label_matchers_list_of (main_query_of q') = Inr lml'
            \<and> mset lml' = mset lml \<and> inj_on (\<lambda>t. snd (snd t)) (set lml)
          \<longrightarrow> map (\<lambda>qr. tl (matchers qr)) (queries req') = [ms])"
proof -
  from request_tail [OF assms] obtain lml where
    l: "label_matchers_list_of (main_query_of q) = Inr lml"
    and t: "map (\<lambda>qr. tl (matchers qr)) (queries req) = [map to_matcher (sort_by_value lml)]"
    by (elim exE conjE)
  let ?ms = "map to_matcher (sort_by_value lml)"
  have p: "map (\<lambda>qr. tl (matchers qr)) (queries req') = [?ms]"
    if a: "construct_read_request now' q' = Inr req'"
      and b: "label_matchers_list_of (main_query_of q') = Inr lml'"
      and c: "mset lml' = mset lml" and d: "inj_on (\<lambda>t. snd (snd t)) (set lml)"
    for now' q' req' lml'
  proof -
    from request_tail [OF a] obtain lml2 where
      b2: "label_matchers_list_of (main_query_of q') = Inr lml2"
      and m2: "map (\<lambda>qr. tl (matchers qr)) (queries req') = [map to_matcher (sort_by_value lml2)]"
      by (elim exE conjE)
    from b b2 have "lml2 = lml'" by simp
    then show ?thesis using m2 sort_by_value_perm [OF c d] by simp
  qed
  show ?thesis
  proof (intro exI conjI allI impI)
    show "label_matchers_list_of (main_query_of q) = Inr lml" by (rule l)
    show "map (\<lambda>qr. tl (matchers qr)) (queries req) = [?ms]" by (rule t)
    show "sorted (map val ?ms)" by (rule sorted_values)
    show "filter (\<lambda>m. val m = v) ?ms = map to_matcher (filter (\<lambda>t. snd (snd t) = v) lml)" for v
      by (rule stable_values)
    show "map (\<lambda>qr. tl (matchers qr)) (queries req') = [?ms]"
      if "construct_read_request now' q' = Inr req'
            \<and> label_matchers_list_of (main_query_of q') = Inr lml'
            \<and> mset lml' = mset lml \<and> inj_on (\<lambda>t. snd (snd t)) (set lml)"
      for now' q' req' lml'
    proof -
      from that have "construct_read_request now' q' = Inr req'"
        and "label_matchers_list_of (main_query_of q') = Inr lml'"
        and "mset lml' = mset lml" and "inj_on (\<lambda>t. snd (snd t)) (set lml)"
        by simp_all
      then show ?thesis by (rule p)
    qed
  qed
qed


theorem matchers_sorted_by_value_witness:
  \<open>\<exists>qr. queries (projr (construct_read_request 10000000 ''metric{b="2",a="1"}'')) = [qr]
      \<and> sorted (map val (tl (matchers qr)))\<close>
proof -
  have a: \<open>construct_read_request 10000000 ''metric{b="2",a="1"}'' =
    Inr \<lparr>queries =
          [\<lparr>start_timestamp_ms = 6400000, end_timestamp_ms = 10000000,
            matchers = [\<lparr>mtype = EQ, name = ''__name__'', val = ''metric''\<rparr>,
                        \<lparr>mtype = EQ, name = ''a'', val = ''1''\<rparr>,
                        \<lparr>mtype = EQ, name = ''b'', val = ''2''\<rparr>],
            hints = no_hints\<rparr>],
         accepted_response_types = [SAMPLES]\<rparr>\<close>
    by code_simp
  from matchers_sorted_by_value [OF a] obtain ms where
    "map (\<lambda>qr. tl (matchers qr)) (queries
       \<lparr>queries =
          [\<lparr>start_timestamp_ms = 6400000, end_timestamp_ms = 10000000,
            matchers = [\<lparr>mtype = EQ, name = ''__name__'', val = ''metric''\<rparr>,
                        \<lparr>mtype = EQ, name = ''a'', val = ''1''\<rparr>,
                        \<lparr>mtype = EQ, name = ''b'', val = ''2''\<rparr>],
            hints = no_hints\<rparr>],
         accepted_response_types = [SAMPLES]\<rparr>) = [ms]"
    and "sorted (map val ms)"
    by (elim exE conjE)
  then show ?thesis by (simp add: a)
qed

text \<open>As the claim is stated it fails for two matchers of equal value: each input order
  gives its own output order.\<close>

theorem matchers_sorted_by_value_counterexample:
  \<open>construct_read_request 10000000 ''metric{a="1",b="1"}'' =
    Inr \<lparr>queries =
          [\<lparr>start_timestamp_ms = 6400000, end_timestamp_ms = 10000000,
            matchers = [\<lparr>mtype = EQ, name = ''__name__'', val = ''metric''\<rparr>,
                        \<lparr>mtype = EQ, name = ''a'', val = ''1''\<rparr>,
                        \<lparr>mtype = EQ, name = ''b'', val = ''1''\<rparr>],
            hints = no_hints\<rparr>],
         accepted_response_types = [SAMPLES]\<rparr>
   \<and> construct_read_request 10000000 ''metric{b="1",a="1"}'' =
    Inr \<lparr>queries =
          [\<lparr>start_timestamp_ms = 6400000, end_timestamp_ms = 10000000,
            matchers = [\<lparr>mtype = EQ, name = ''__name__'', val = ''metric''\<rparr>,
                        \<lparr>mtype = EQ, name = ''b'', val = ''1''\<rparr>,
                        \<lparr>mtype = EQ, name = ''a'', val = ''1''\<rparr>],
            hints = no_hints\<rparr>],
         accepted_response_types = [SAMPLES]\<rparr>\<close>
  by code_simp

section \<open>The read hints\<close>

lemma values_of_Cons: "values_of key (kv # kvs) = values_of key [kv] @ values_of key kvs"
  by (simp add: values_of_def entries_of_def)

lemma last_of_Cons:
  "last_of key (kv # kvs) =
    (case last_of key kvs of None \<Rightarrow> last_of key [kv] | Some v \<Rightarrow> Some v)"
proof -
  have "values_of key (kv # kvs) = values_of key [kv] @ values_of key kvs"
    by (rule values_of_Cons)
  then show ?thesis
    by (cases "values_of key kvs"; cases "values_of key [kv]") (simp_all add: last_of_def)
qed

lemma last_of_Nil: "last_of key [] = None"
  by (simp add: last_of_def values_of_def entries_of_def)

text \<open>A variable that every turn of the loop either keeps or sets from the value of an
  entry of one key ends with the value of the last such entry.\<close>

lemma hints_loop_last:
  assumes step: "\<And>kv st st1. apply_hint kv st = Inr st1 \<Longrightarrow>
      g st1 = (case last_of key [kv] of None \<Rightarrow> g st | Some v \<Rightarrow> h v)"
  shows "hints_loop kvs st = Inr st' \<Longrightarrow>
      g st' = (case last_of key kvs of None \<Rightarrow> g st | Some v \<Rightarrow> h v)"
proof (induction kvs arbitrary: st)
  case Nil
  then show ?case by (simp add: last_of_Nil)
next
  case (Cons kv kvs)
  from Cons.prems obtain st1 where a: "apply_hint kv st = Inr st1"
    and l: "hints_loop kvs st1 = Inr st'"
    by (auto split: sum.splits)
  from Cons.IH [OF l] have "g st' = (case last_of key kvs of None \<Rightarrow> g st1 | Some v \<Rightarrow> h v)" .
  with step [OF a] show ?case
    by (simp add: last_of_Cons split: option.splits)
qed

lemma single_entry:
  "entries_of [kv] =
    (if CHR ''='' \<in> set (strip kv) then [(hint_key (strip kv), hint_val (strip kv))] else [])"
  by (simp add: entries_of_def)

lemma last_of_single:
  "last_of key [kv] =
    (if CHR ''='' \<in> set (strip kv) \<and> hint_key (strip kv) = key
     then Some (hint_val (strip kv)) else None)"
  by (simp add: last_of_def values_of_def single_entry)

lemma values_of_single:
  "values_of key [kv] =
    (if CHR ''='' \<in> set (strip kv) \<and> hint_key (strip kv) = key
     then [hint_val (strip kv)] else [])"
  by (simp add: values_of_def single_entry)

lemma step_start_ms:
  "apply_hint kv st = Inr st1 \<Longrightarrow>
    start_ms (hints_v st1) =
      (case last_of ''start'' [kv] of None \<Rightarrow> start_ms (hints_v st) | Some v \<Rightarrow> py_int v)"
  by (auto simp add: apply_hint_def Let_def last_of_single split: if_splits option.splits)

lemma step_end_ms:
  "apply_hint kv st = Inr st1 \<Longrightarrow>
    end_ms (hints_v st1) =
      (case last_of ''end'' [kv] of None \<Rightarrow> end_ms (hints_v st) | Some v \<Rightarrow> py_int v)"
  by (auto simp add: apply_hint_def Let_def last_of_single split: if_splits option.splits)

lemma step_step_ms:
  "apply_hint kv st = Inr st1 \<Longrightarrow>
    step_ms (hints_v st1) =
      (case last_of ''step'' [kv] of None \<Rightarrow> step_ms (hints_v st) | Some v \<Rightarrow> py_int v)"
  by (auto simp add: apply_hint_def Let_def last_of_single split: if_splits option.splits)

lemma step_range_ms:
  "apply_hint kv st = Inr st1 \<Longrightarrow>
    range_ms (hints_v st1) =
      (case last_of ''range'' [kv] of None \<Rightarrow> range_ms (hints_v st) | Some v \<Rightarrow> py_int v)"
  by (auto simp add: apply_hint_def Let_def last_of_single split: if_splits option.splits)

lemma step_func:
  "apply_hint kv st = Inr st1 \<Longrightarrow>
    func (hints_v st1) =
      (case last_of ''func'' [kv] of None \<Rightarrow> func (hints_v st) | Some v \<Rightarrow> Some v)"
  by (auto simp add: apply_hint_def Let_def last_of_single split: if_splits option.splits)

lemma step_by_flag:
  "apply_hint kv st = Inr st1 \<Longrightarrow>
    by_flag (hints_v st1) =
      (case last_of ''by'' [kv] of None \<Rightarrow> by_flag (hints_v st)
       | Some v \<Rightarrow> Some (lower v = ''true''))"
  by (auto simp add: apply_hint_def Let_def last_of_single split: if_splits option.splits)

lemma step_start_v:
  "apply_hint kv st = Inr st1 \<Longrightarrow>
    start_v st1 =
      (case last_of ''start'' [kv] of None \<Rightarrow> start_v st | Some v \<Rightarrow> the (py_int v))"
  by (auto simp add: apply_hint_def Let_def last_of_single split: if_splits option.splits)

lemma step_end_v:
  "apply_hint kv st = Inr st1 \<Longrightarrow>
    end_v st1 =
      (case last_of ''end'' [kv] of None \<Rightarrow> end_v st | Some v \<Rightarrow> the (py_int v))"
  by (auto simp add: apply_hint_def Let_def last_of_single split: if_splits option.splits)

lemma step_grouping:
  "apply_hint kv st = Inr st1 \<Longrightarrow>
    grouping (hints_v st1) =
      grouping (hints_v st) @ concat (map grouping_values (values_of ''grouping'' [kv]))"
  by (auto simp add: apply_hint_def Let_def values_of_single split: if_splits option.splits)

lemma hints_loop_grouping:
  "hints_loop kvs st = Inr st' \<Longrightarrow>
    grouping (hints_v st') =
      grouping (hints_v st) @ concat (map grouping_values (values_of ''grouping'' kvs))"
proof (induction kvs arbitrary: st)
  case Nil
  then show ?case by (simp add: values_of_def entries_of_def)
next
  case (Cons kv kvs)
  from Cons.prems obtain st1 where a: "apply_hint kv st = Inr st1"
    and l: "hints_loop kvs st1 = Inr st'"
    by (auto split: sum.splits)
  from Cons.IH [OF l] step_grouping [OF a] show ?case
    by (simp add: values_of_Cons [of _ kv kvs])
qed

lemma parse_hints_block:
  assumes "hints_query_of q = Some hq" and "read_hints_match hq = Some hs"
  shows "parse_hints (hints_query_of q) st = hints_loop (split_on (CHR '','') hs) st"
proof -
  from assms(2) have "hq \<noteq> []" by auto
  with assms show ?thesis by (simp add: parse_hints_def)
qed

lemma construct_read_request_Inr:
  assumes "construct_read_request now q = Inr req"
  shows "\<exists>mn lml tr st. metric_match (main_query_of q) = Some mn
      \<and> label_matchers_list_of (main_query_of q) = Inr lml
      \<and> time_range_of (main_query_of q) = Inr tr
      \<and> parse_hints (hints_query_of q) (initial_vars now tr) = Inr st
      \<and> req = request_of mn lml st"
  using assms
  by (auto simp add: construct_read_request_stages split: option.splits sum.splits)

lemma initial_hints: "hints_v (initial_vars now tr) = no_hints"
  by (simp add: initial_vars_def)

text \<open>
  Claim C10. When the function returns for a query with a read hints block, each of the
  fields \<open>start_ms\<close>, \<open>end_ms\<close>, \<open>step_ms\<close>, \<open>range_ms\<close>, \<open>func\<close> and \<open>by\<close> of the hints
  has the value of the last entry of its key (or is absent when there is none), every
  assignment overwriting the one before; the grouping holds, for the entries of key
  \<^verbatim>\<open>grouping\<close> in the order of the text, their elements split on \<^verbatim>\<open>|\<close>, stripped,
  the empty ones left out, those of a later entry after those of every earlier one.
\<close>

theorem repeated_hint_keys:
  assumes "construct_read_request now q = Inr req"
    and "hints_query_of q = Some hq"
    and "read_hints_match hq = Some hs"
  shows "\<exists>qr. queries req = [qr]
      \<and> start_ms (hints qr) = Option.bind (last_value ''start'' hs) py_int
      \<and> end_ms (hints qr) = Option.bind (last_value ''end'' hs) py_int
      \<and> step_ms (hints qr) = Option.bind (last_value ''step'' hs) py_int
      \<and> range_ms (hints qr) = Option.bind (last_value ''range'' hs) py_int
      \<and> func (hints qr) = last_value ''func'' hs
      \<and> by_flag (hints qr) = map_option (\<lambda>v. lower v = ''true'') (last_value ''by'' hs)
      \<and> grouping (hints qr) = concat (map grouping_values (hint_values ''grouping'' hs))"
proof -
  from construct_read_request_Inr [OF assms(1)] obtain mn lml tr st where
    p: "parse_hints (hints_query_of q) (initial_vars now tr) = Inr st"
    and r: "req = request_of mn lml st"
    by (elim exE conjE)
  let ?kvs = "split_on (CHR '','') hs"
  let ?st0 = "initial_vars now tr"
  from p have l: "hints_loop ?kvs ?st0 = Inr st"
    by (simp add: parse_hints_block [OF assms(2,3)])
  have 1: "start_ms (hints_v st) = Option.bind (last_value ''start'' hs) py_int"
    using hints_loop_last [where g = "\<lambda>s. start_ms (hints_v s)" and h = py_int, OF step_start_ms l]
    by (simp add: initial_hints no_hints_def last_value_def split: option.splits)
  have 2: "end_ms (hints_v st) = Option.bind (last_value ''end'' hs) py_int"
    using hints_loop_last [where g = "\<lambda>s. end_ms (hints_v s)" and h = py_int, OF step_end_ms l]
    by (simp add: initial_hints no_hints_def last_value_def split: option.splits)
  have 3: "step_ms (hints_v st) = Option.bind (last_value ''step'' hs) py_int"
    using hints_loop_last [where g = "\<lambda>s. step_ms (hints_v s)" and h = py_int, OF step_step_ms l]
    by (simp add: initial_hints no_hints_def last_value_def split: option.splits)
  have 4: "range_ms (hints_v st) = Option.bind (last_value ''range'' hs) py_int"
    using hints_loop_last [where g = "\<lambda>s. range_ms (hints_v s)" and h = py_int, OF step_range_ms l]
    by (simp add: initial_hints no_hints_def last_value_def split: option.splits)
  have 5: "func (hints_v st) = last_value ''func'' hs"
    using hints_loop_last [where g = "\<lambda>s. func (hints_v s)" and h = Some, OF step_func l]
    by (simp add: initial_hints no_hints_def last_value_def split: option.splits)
  have 6: "by_flag (hints_v st) = map_option (\<lambda>v. lower v = ''true'') (last_value ''by'' hs)"
    using hints_loop_last [where g = "\<lambda>s. by_flag (hints_v s)"
        and h = "\<lambda>v. Some (lower v = ''true'')", OF step_by_flag l]
    by (simp add: initial_hints no_hints_def last_value_def split: option.splits)
  have 7: "grouping (hints_v st) = concat (map grouping_values (hint_values ''grouping'' hs))"
    using hints_loop_grouping [OF l]
    by (simp add: initial_hints no_hints_def hint_values_def)
  show ?thesis
    using 1 2 3 4 5 6 7 by (simp add: r request_of_def)
qed

theorem repeated_hint_keys_witness:
  \<open>\<exists>qr. queries (projr (construct_read_request 10000000
        ''metric @ {read_hints="start=1,func=sum,grouping=a|b,by=TRUE,start=2,grouping= c ||d,by=no,func=avg"}'')) = [qr]
      \<and> start_ms (hints qr) = Some 2
      \<and> func (hints qr) = Some ''avg''
      \<and> by_flag (hints qr) = Some False
      \<and> grouping (hints qr) = [''a'', ''b'', ''c'', ''d'']\<close>
proof -
  let ?hs = \<open>''start=1,func=sum,grouping=a|b,by=TRUE,start=2,grouping= c ||d,by=no,func=avg''\<close>
  let ?hq = \<open>''{read_hints="start=1,func=sum,grouping=a|b,by=TRUE,start=2,grouping= c ||d,by=no,func=avg"}''\<close>
  let ?q = \<open>''metric @ {read_hints="start=1,func=sum,grouping=a|b,by=TRUE,start=2,grouping= c ||d,by=no,func=avg"}''\<close>
  have a: \<open>construct_read_request 10000000 ?q =
    Inr \<lparr>queries =
          [\<lparr>start_timestamp_ms = 2, end_timestamp_ms = 10000000,
            matchers = [\<lparr>mtype = EQ, name = ''__name__'', val = ''metric''\<rparr>],
            hints = \<lparr>step_ms = None, func = Some ''avg'', start_ms = Some 2, end_ms = None,
                      grouping = [''a'', ''b'', ''c'', ''d''], by_flag = Some False,
                      range_ms = None\<rparr>\<rparr>],
         accepted_response_types = [SAMPLES]\<rparr>\<close>
    by code_simp
  have b: \<open>hints_query_of ?q = Some ?hq\<close>
    by code_simp
  have c: \<open>read_hints_match ?hq = Some ?hs\<close>
    by code_simp
  have v: \<open>Option.bind (last_value ''start'' ?hs) py_int = Some 2\<close>
    \<open>last_value ''func'' ?hs = Some ''avg''\<close>
    \<open>map_option (\<lambda>v. lower v = ''true'') (last_value ''by'' ?hs) = Some False\<close>
    \<open>concat (map grouping_values (hint_values ''grouping'' ?hs)) = [''a'', ''b'', ''c'', ''d'']\<close>
    by code_simp+
  from repeated_hint_keys [OF a b c] show ?thesis
    unfolding v by (simp add: a)
qed

lemma entries_of_Cons: "entries_of (kv # kvs) = entries_of [kv] @ entries_of kvs"
  by (simp add: entries_of_def)

lemma apply_hint_ok:
  "list_all typed_ok (entries_of [kv]) \<Longrightarrow> \<exists>st1. apply_hint kv st = Inr st1"
  by (auto simp add: apply_hint_def Let_def single_entry typed_ok_def split: if_splits)

text \<open>The loop over the hints ends without an error when every entry of a key with an
  integer value has one.\<close>

lemma hints_loop_ok:
  "list_all typed_ok (entries_of kvs) \<Longrightarrow> \<exists>st'. hints_loop kvs st = Inr st'"
proof (induction kvs arbitrary: st)
  case Nil
  then show ?case by simp
next
  case (Cons kv kvs)
  from Cons.prems have a: "list_all typed_ok (entries_of [kv])"
    and b: "list_all typed_ok (entries_of kvs)"
    by (simp_all add: entries_of_Cons [of kv kvs])
  from apply_hint_ok [OF a] obtain st1 where "apply_hint kv st = Inr st1" by blast
  with Cons.IH [OF b, of st1] show ?case by simp
qed

text \<open>
  Claim C8, as amended. When the metric name, the label matchers and the time range of
  the query parse, the hints part holds a read hints block, every entry of key
  \<^verbatim>\<open>start\<close>, \<^verbatim>\<open>end\<close>, \<^verbatim>\<open>step\<close> or \<^verbatim>\<open>range\<close> in it has an integer value, and the last
  entries of key \<^verbatim>\<open>start\<close> and \<^verbatim>\<open>end\<close> have the values \<open>a\<close> and \<open>b\<close>, then the function
  returns a request whose hints have \<open>start_ms = a\<close> and \<open>end_ms = b\<close> and whose two
  time stamps are \<open>a\<close> and \<open>b\<close>, in place of the values derived from the clock.
\<close>

theorem hints_start_end:
  assumes "metric_match (main_query_of q) = Some mn"
    and "label_matchers_list_of (main_query_of q) = Inr lml"
    and "time_range_of (main_query_of q) = Inr tr"
    and "hints_query_of q = Some hq"
    and "read_hints_match hq = Some hs"
    and "list_all typed_ok (hint_entries hs)"
    and "Option.bind (last_value ''start'' hs) py_int = Some a"
    and "Option.bind (last_value ''end'' hs) py_int = Some b"
  shows "\<exists>req qr. construct_read_request now q = Inr req \<and> queries req = [qr]
      \<and> start_ms (hints qr) = Some a \<and> end_ms (hints qr) = Some b
      \<and> start_timestamp_ms qr = a \<and> end_timestamp_ms qr = b"
proof -
  let ?kvs = "split_on (CHR '','') hs"
  let ?st0 = "initial_vars now tr"
  from assms(6) obtain st where l: "hints_loop ?kvs ?st0 = Inr st"
    using hints_loop_ok [of ?kvs ?st0] by (auto simp add: hint_entries_def)
  then have p: "parse_hints (hints_query_of q) ?st0 = Inr st"
    by (simp add: parse_hints_block [OF assms(4,5)])
  have c: "construct_read_request now q = Inr (request_of mn lml st)"
    using assms(1-3) p by (simp add: construct_read_request_stages)
  from assms(7) obtain sv where sv: "last_of ''start'' ?kvs = Some sv" "py_int sv = Some a"
    by (auto simp add: last_value_def split: Option.bind_splits)
  from assms(8) obtain ev where ev: "last_of ''end'' ?kvs = Some ev" "py_int ev = Some b"
    by (auto simp add: last_value_def split: Option.bind_splits)
  have 1: "start_ms (hints_v st) = Some a"
    using hints_loop_last [where g = "\<lambda>s. start_ms (hints_v s)" and h = py_int, OF step_start_ms l]
    by (simp add: sv)
  have 2: "end_ms (hints_v st) = Some b"
    using hints_loop_last [where g = "\<lambda>s. end_ms (hints_v s)" and h = py_int, OF step_end_ms l]
    by (simp add: ev)
  have 3: "start_v st = a"
    using hints_loop_last [where g = start_v and h = "\<lambda>v. the (py_int v)", OF step_start_v l]
    by (simp add: sv)
  have 4: "end_v st = b"
    using hints_loop_last [where g = end_v and h = "\<lambda>v. the (py_int v)", OF step_end_v l]
    by (simp add: ev)
  show ?thesis
    using c 1 2 3 4 by (simp add: request_of_def)
qed

theorem hints_start_end_witness:
  \<open>\<exists>req qr. construct_read_request 10000000
        ''metric{code!~"2..", a="x"} @ {read_hints="start=100,end=200"}'' = Inr req
      \<and> queries req = [qr]
      \<and> start_ms (hints qr) = Some 100 \<and> end_ms (hints qr) = Some 200
      \<and> start_timestamp_ms qr = 100 \<and> end_timestamp_ms qr = 200\<close>
proof -
  let ?q = \<open>''metric{code!~"2..", a="x"} @ {read_hints="start=100,end=200"}''\<close>
  have 1: \<open>metric_match (main_query_of ?q) = Some ''metric''\<close>
    by code_simp
  have 2: \<open>label_matchers_list_of (main_query_of ?q)
      = Inr [(''code'', ''!~'', ''2..''), (''a'', ''='', ''x'')]\<close>
    by code_simp
  have 3: \<open>time_range_of (main_query_of ?q) = Inr 3600000\<close>
    by code_simp
  have 4: \<open>hints_query_of ?q = Some ''{read_hints="start=100,end=200"}''\<close>
    by code_simp
  have 5: \<open>read_hints_match ''{read_hints="start=100,end=200"}'' = Some ''start=100,end=200''\<close>
    by code_simp
  have 6: \<open>list_all typed_ok (hint_entries ''start=100,end=200'')\<close>
    by code_simp
  have 7: \<open>Option.bind (last_value ''start'' ''start=100,end=200'') py_int = Some 100\<close>
    by code_simp
  have 8: \<open>Option.bind (last_value ''end'' ''start=100,end=200'') py_int = Some 200\<close>
    by code_simp
  show ?thesis by (rule hints_start_end [OF 1 2 3 4 5 6 7 8])
qed

text \<open>As the claim is stated it fails when another entry of the block has a key that
  asks for an integer and a value that is none: the function raises.\<close>

theorem hints_start_end_counterexample:
  \<open>construct_read_request 10000000 ''metric @ {read_hints="start=100,end=200,step=x"}''
    = Inl (InvalidHintValue ''step'' ''x'')\<close>
  by code_simp

section \<open>The normaliser\<close>

lemma for_each_map:
  "(\<And>x. x \<in> set xs \<Longrightarrow> f x = Inr (g x)) \<Longrightarrow> for_each f xs = Inr (map g xs)"
  by (induction xs) simp_all

lemma sort_labels_present:
  "list_all (\<lambda>l. label_name l \<noteq> None) ls \<Longrightarrow> sort_labels ls = Inr (sort_key label_key ls)"
  by (simp add: sort_labels_def label_key_def [abs_def])

lemma normalize_timeseries_present:
  "keys_present ts \<Longrightarrow> normalize_timeseries ts = Inr (sorted_series ts)"
  by (auto simp add: keys_present_def normalize_timeseries_def sorted_series_def
      sort_labels_present split: option.splits)

lemma normalize_result_present:
  assumes "\<And>ts. ts \<in> set (result_series x) \<Longrightarrow> keys_present ts"
  shows "normalize_result x = Inr (sorted_result x)"
proof (cases "timeseries x")
  case None
  then show ?thesis by (simp add: normalize_result_def sorted_result_def)
next
  case (Some tss)
  then have "for_each normalize_timeseries tss = Inr (map sorted_series tss)"
    using assms by (intro for_each_map) (simp add: result_series_def normalize_timeseries_present)
  with Some show ?thesis by (simp add: normalize_result_def sorted_result_def)
qed

lemma normalize_present:
  assumes "list_all keys_present (series_of r)"
  shows "normalize r = Inr (sorted_response r)"
proof (cases "results r")
  case None
  then show ?thesis by (simp add: normalize_def sorted_response_def)
next
  case (Some rs)
  have "for_each normalize_result rs = Inr (map sorted_result rs)"
  proof (rule for_each_map)
    fix x assume "x \<in> set rs"
    then have "\<And>ts. ts \<in> set (result_series x) \<Longrightarrow> keys_present ts"
      using assms Some by (auto simp add: series_of_def list_all_iff)
    then show "normalize_result x = Inr (sorted_result x)"
      by (rule normalize_result_present)
  qed
  with Some show ?thesis by (simp add: normalize_def sorted_response_def)
qed


lemma sort_key_sorted_id:
  fixes f :: "'a \<Rightarrow> 'b::linorder"
  shows "sort_key f (sort_key f xs) = sort_key f xs"
  by (rule sort_key_id_if_sorted) simp

lemma labels_sorted_series:
  "keys_present ts \<Longrightarrow> labels_sorted ts (sorted_series ts)"
  by (auto simp add: keys_present_def labels_sorted_def sorted_series_def sort_key_stable
      split: option.splits)

lemma keys_present_sorted:
  "keys_present ts \<Longrightarrow> keys_present (sorted_series ts)"
  by (auto simp add: keys_present_def sorted_series_def list_all_iff split: option.splits)

lemma sorted_series_idem: "sorted_series (sorted_series ts) = sorted_series ts"
  by (cases "labels ts") (simp_all add: sorted_series_def sort_key_sorted_id)

lemma sorted_result_idem: "sorted_result (sorted_result x) = sorted_result x"
  by (cases "timeseries x") (simp_all add: sorted_result_def sorted_series_idem)

lemma sorted_response_idem: "sorted_response (sorted_response r) = sorted_response r"
  by (cases "results r") (simp_all add: sorted_response_def sorted_result_idem)

lemma result_series_sorted:
  "result_series (sorted_result x) = map sorted_series (result_series x)"
  by (cases "timeseries x") (simp_all add: result_series_def sorted_result_def)

lemma series_of_sorted: "series_of (sorted_response r) = map sorted_series (series_of r)"
  by (cases "results r")
    (simp_all add: series_of_def sorted_response_def map_concat comp_def result_series_sorted)

lemma keys_present_sorted_response:
  "list_all keys_present (series_of r) \<Longrightarrow> list_all keys_present (series_of (sorted_response r))"
  by (simp add: series_of_sorted list_all_iff keys_present_sorted)

lemma list_all2_map_right:
  "(\<And>x. x \<in> set xs \<Longrightarrow> R x (f x)) \<Longrightarrow> list_all2 R xs (map f xs)"
  by (induction xs) simp_all

lemma series_of_member:
  assumes "results r = Some rs" and "x \<in> set rs" and "timeseries x = Some tss"
    and "ts \<in> set tss"
  shows "ts \<in> set (series_of r)"
proof -
  have "ts \<in> set (result_series x)" using assms(3,4) by (simp add: result_series_def)
  with assms(1,2) show ?thesis by (auto simp add: series_of_def)
qed

lemma series_rel_sorted:
  assumes "\<And>ts. ts \<in> set (series_of r) \<Longrightarrow> R ts (sorted_series ts)"
  shows "series_rel R r (sorted_response r)"
proof (cases "results r")
  case None
  then show ?thesis by (simp add: series_rel_def sorted_response_def)
next
  case (Some rs)
  have "list_all2 (\<lambda>x y. rel_option (list_all2 R) (timeseries x) (timeseries y))
          rs (map sorted_result rs)"
  proof (rule list_all2_map_right)
    fix x assume x: "x \<in> set rs"
    show "rel_option (list_all2 R) (timeseries x) (timeseries (sorted_result x))"
    proof (cases "timeseries x")
      case None
      then show ?thesis by (simp add: sorted_result_def)
    next
      case tss: (Some tss)
      have "list_all2 R tss (map sorted_series tss)"
      proof (rule list_all2_map_right)
        fix ts assume "ts \<in> set tss"
        then have "ts \<in> set (series_of r)"
          by (rule series_of_member [OF Some x tss])
        then show "R ts (sorted_series ts)" by (rule assms)
      qed
      with tss show ?thesis by (simp add: sorted_result_def)
    qed
  qed
  with Some show ?thesis by (simp add: series_rel_def sorted_response_def)
qed

lemma label_key_inj:
  assumes "inj_on label_name (set ls)" and "list_all (\<lambda>l. label_name l \<noteq> None) ls"
  shows "inj_on label_key (set ls)"
proof (rule inj_onI)
  fix a b assume a: "a \<in> set ls" and b: "b \<in> set ls" and e: "label_key a = label_key b"
  from a b assms(2) have "label_name a = Some (label_key a)" "label_name b = Some (label_key b)"
    by (auto simp add: list_all_iff label_key_def)
  with e have "label_name a = label_name b" by simp
  with assms(1) a b show "a = b" by (auto dest: inj_onD)
qed

lemma sorted_series_permuted:
  assumes "labels_permuted ts ts2" and "keys_present ts"
  shows "keys_present ts2 \<and> sorted_series ts2 = sorted_series ts"
proof -
  from assms(1) obtain ls ls2 where s: "samples ts2 = samples ts"
    and l: "labels ts = Some ls" and l2: "labels ts2 = Some ls2"
    and m: "mset ls2 = mset ls" and i: "inj_on label_name (set ls)"
    by (auto simp add: labels_permuted_def)
  from assms(2) l have p: "list_all (\<lambda>l. label_name l \<noteq> None) ls"
    by (simp add: keys_present_def)
  have "set ls2 = set ls" using m by (rule mset_eq_setD)
  with p have "list_all (\<lambda>l. label_name l \<noteq> None) ls2"
    by (simp add: list_all_iff)
  with l2 have k: "keys_present ts2" by (simp add: keys_present_def)
  have "sort_key label_key ls2 = sort_key label_key ls"
    using m label_key_inj [OF i p] by (rule sort_key_perm)
  with s l l2 have "sorted_series ts2 = sorted_series ts"
    by (cases ts; cases ts2) (simp add: sorted_series_def)
  with k show ?thesis by simp
qed


lemma sorted_series_reordered:
  assumes "labels_reordered ts ts2" and "keys_present ts"
  shows "keys_present ts2 \<and> sorted_series ts2 = sorted_series ts"
proof (cases "ts2 = ts")
  case True
  with assms(2) show ?thesis by simp
next
  case False
  with assms(1) have "labels_permuted ts ts2" by (simp add: labels_reordered_def)
  then show ?thesis using assms(2) by (rule sorted_series_permuted)
qed

lemma list_all2_lift:
  assumes "list_all2 R xs ys"
    and "\<And>x y. x \<in> set xs \<Longrightarrow> R x y \<Longrightarrow> P y \<and> f y = f x"
  shows "list_all P ys \<and> map f ys = map f xs"
  using assms by (induction rule: list_all2_induct) auto

lemma sorted_result_permuted:
  fixes x y :: "'s result"
  assumes "rel_option (list_all2 labels_reordered) (timeseries x) (timeseries y)"
    and "list_all keys_present (result_series x)"
  shows "list_all keys_present (result_series y) \<and> sorted_result y = sorted_result x"
proof (cases "timeseries x")
  case None
  with assms(1) have "timeseries y = None" by (cases "timeseries y") simp_all
  with None show ?thesis
    by (cases x; cases y) (simp add: result_series_def sorted_result_def)
next
  case (Some tss)
  with assms(1) obtain tss2 where y: "timeseries y = Some tss2"
    and r: "list_all2 labels_reordered tss tss2"
    by (cases "timeseries y") simp_all
  have "list_all keys_present tss2 \<and> map sorted_series tss2 = map sorted_series tss"
  proof (rule list_all2_lift [OF r])
    fix a b :: "'s timeseries"
    assume "a \<in> set tss" and p: "labels_reordered a b"
    with assms(2) Some have "keys_present a"
      by (simp add: result_series_def list_all_iff)
    with p show "keys_present b \<and> sorted_series b = sorted_series a"
      by (rule sorted_series_reordered)
  qed
  with Some y show ?thesis
    by (cases x; cases y) (simp add: result_series_def sorted_result_def)
qed

lemma sorted_response_permuted:
  fixes r r2 :: "'s response"
  assumes "series_rel labels_reordered r r2"
    and "list_all keys_present (series_of r)"
  shows "list_all keys_present (series_of r2) \<and> sorted_response r2 = sorted_response r"
proof (cases "results r")
  case None
  with assms(1) have "results r2 = None"
    by (cases "results r2") (simp_all add: series_rel_def)
  with None show ?thesis
    by (cases r; cases r2) (simp add: series_of_def sorted_response_def)
next
  case (Some rs)
  with assms(1) obtain rs2 where y: "results r2 = Some rs2"
    and l: "list_all2 (\<lambda>x y. rel_option (list_all2 labels_reordered) (timeseries x) (timeseries y))
              rs rs2"
    by (cases "results r2") (simp_all add: series_rel_def)
  have "list_all (\<lambda>y. list_all keys_present (result_series y)) rs2
        \<and> map sorted_result rs2 = map sorted_result rs"
  proof (rule list_all2_lift [OF l])
    fix a b :: "'s result"
    assume a: "a \<in> set rs"
      and p: "rel_option (list_all2 labels_reordered) (timeseries a) (timeseries b)"
    from a assms(2) Some have "list_all keys_present (result_series a)"
      by (simp add: series_of_def list_all_iff)
    with p show "list_all keys_present (result_series b) \<and> sorted_result b = sorted_result a"
      by (rule sorted_result_permuted)
  qed
  with Some y show ?thesis
    by (cases r; cases r2) (simp add: series_of_def sorted_response_def list_all_iff)
qed

lemma for_each_Inr_all:
  "for_each f xs = Inr ys \<Longrightarrow> x \<in> set xs \<Longrightarrow> \<exists>y. f x = Inr y"
  by (induction xs arbitrary: ys) (auto split: sum.splits)

lemma normalize_timeseries_Inr:
  "normalize_timeseries ts = Inr ts' \<Longrightarrow> keys_present ts"
  by (auto simp add: normalize_timeseries_def sort_labels_def keys_present_def
      split: option.splits if_splits sum.splits)

text \<open>The normaliser returns exactly for the responses in which every series has its
  labels and every label its name; for the others a \<^verbatim>\<open>KeyError\<close> is raised.\<close>

lemma normalize_returns_iff:
  "(\<exists>r'. normalize r = Inr r') \<longleftrightarrow> list_all keys_present (series_of r)"
proof
  assume "list_all keys_present (series_of r)"
  then show "\<exists>r'. normalize r = Inr r'" using normalize_present by blast
next
  assume "\<exists>r'. normalize r = Inr r'"
  then obtain r' where n: "normalize r = Inr r'" ..
  show "list_all keys_present (series_of r)"
  proof (cases "results r")
    case None
    then show ?thesis by (simp add: series_of_def)
  next
    case (Some rs)
    with n obtain rs' where f: "for_each normalize_result rs = Inr rs'"
      by (auto simp add: normalize_def split: sum.splits)
    have "keys_present ts" if x: "x \<in> set rs" and t: "ts \<in> set (result_series x)" for x ts
    proof -
      from for_each_Inr_all [OF f x] obtain y where y: "normalize_result x = Inr y" ..
      from t obtain tss where tss: "timeseries x = Some tss" and m: "ts \<in> set tss"
        by (cases "timeseries x") (simp_all add: result_series_def)
      from y tss obtain tss' where "for_each normalize_timeseries tss = Inr tss'"
        by (auto simp add: normalize_result_def split: sum.splits)
      from for_each_Inr_all [OF this m] show ?thesis
        by (auto dest: normalize_timeseries_Inr)
    qed
    with Some show ?thesis by (auto simp add: series_of_def list_all_iff)
  qed
qed

text \<open>
  Claim C9, as amended. For every decoded response in which each series has its labels
  and each label its name, the normaliser returns a response of the same shape in which
  the labels of each series are sorted ascending on the name by a stable sort and
  nothing else is changed (the samples are as they were); normalising the result again
  gives the result; and normalising a response that differs only in the order of the
  labels of some of its series gives the same result, provided no two different labels
  of a series whose labels are permuted have the same name.
\<close>

theorem normalize_labels:
  assumes "list_all keys_present (series_of r)"
  shows "\<exists>r'. normalize r = Inr r'
      \<and> series_rel labels_sorted r r'
      \<and> normalize r' = Inr r'
      \<and> (\<forall>r2. series_rel labels_reordered r r2 \<longrightarrow> normalize r2 = Inr r')"
proof (intro exI conjI allI impI)
  show "normalize r = Inr (sorted_response r)"
    using assms by (rule normalize_present)
  show "series_rel labels_sorted r (sorted_response r)"
  proof (rule series_rel_sorted)
    fix ts assume "ts \<in> set (series_of r)"
    with assms have "keys_present ts" by (simp add: list_all_iff)
    then show "labels_sorted ts (sorted_series ts)" by (rule labels_sorted_series)
  qed
  show "normalize (sorted_response r) = Inr (sorted_response r)"
    using normalize_present [OF keys_present_sorted_response [OF assms]]
    by (simp add: sorted_response_idem)
  show "normalize r2 = Inr (sorted_response r)" if "series_rel labels_reordered r r2" for r2
    using sorted_response_permuted [OF that assms] normalize_present [of r2] by simp
qed

text \<open>An instance with two series: the first, with two labels of one name, is left as
  it is; the labels of the second are permuted.\<close>

theorem normalize_labels_witness:
  "normalize \<lparr>results = Some [\<lparr>timeseries = Some
       [\<lparr>labels = Some [\<lparr>label_name = Some ''a'', label_value = Some ''2''\<rparr>,
                         \<lparr>label_name = Some ''a'', label_value = Some ''1''\<rparr>],
         samples = [100 :: int]\<rparr>,
        \<lparr>labels = Some [\<lparr>label_name = Some ''instance'', label_value = Some ''i''\<rparr>,
                         \<lparr>label_name = Some ''__name__'', label_value = Some ''m''\<rparr>],
         samples = [220]\<rparr>]\<rparr>]\<rparr>
   = Inr \<lparr>results = Some [\<lparr>timeseries = Some
       [\<lparr>labels = Some [\<lparr>label_name = Some ''a'', label_value = Some ''2''\<rparr>,
                         \<lparr>label_name = Some ''a'', label_value = Some ''1''\<rparr>],
         samples = [100 :: int]\<rparr>,
        \<lparr>labels = Some [\<lparr>label_name = Some ''__name__'', label_value = Some ''m''\<rparr>,
                         \<lparr>label_name = Some ''instance'', label_value = Some ''i''\<rparr>],
         samples = [220]\<rparr>]\<rparr>]\<rparr>
  \<and> normalize \<lparr>results = Some [\<lparr>timeseries = Some
       [\<lparr>labels = Some [\<lparr>label_name = Some ''a'', label_value = Some ''2''\<rparr>,
                         \<lparr>label_name = Some ''a'', label_value = Some ''1''\<rparr>],
         samples = [100 :: int]\<rparr>,
        \<lparr>labels = Some [\<lparr>label_name = Some ''__name__'', label_value = Some ''m''\<rparr>,
                         \<lparr>label_name = Some ''instance'', label_value = Some ''i''\<rparr>],
         samples = [220]\<rparr>]\<rparr>]\<rparr>
   = Inr \<lparr>results = Some [\<lparr>timeseries = Some
       [\<lparr>labels = Some [\<lparr>label_name = Some ''a'', label_value = Some ''2''\<rparr>,
                         \<lparr>label_name = Some ''a'', label_value = Some ''1''\<rparr>],
         samples = [100 :: int]\<rparr>,
        \<lparr>labels = Some [\<lparr>label_name = Some ''__name__'', label_value = Some ''m''\<rparr>,
                         \<lparr>label_name = Some ''instance'', label_value = Some ''i''\<rparr>],
         samples = [220]\<rparr>]\<rparr>]\<rparr>"
proof -
  let ?r = "\<lparr>results = Some [\<lparr>timeseries = Some
       [\<lparr>labels = Some [\<lparr>label_name = Some ''a'', label_value = Some ''2''\<rparr>,
                         \<lparr>label_name = Some ''a'', label_value = Some ''1''\<rparr>],
         samples = [100 :: int]\<rparr>,
        \<lparr>labels = Some [\<lparr>label_name = Some ''instance'', label_value = Some ''i''\<rparr>,
                         \<lparr>label_name = Some ''__name__'', label_value = Some ''m''\<rparr>],
         samples = [220]\<rparr>]\<rparr>]\<rparr>"
  let ?r2 = "\<lparr>results = Some [\<lparr>timeseries = Some
       [\<lparr>labels = Some [\<lparr>label_name = Some ''a'', label_value = Some ''2''\<rparr>,
                         \<lparr>label_name = Some ''a'', label_value = Some ''1''\<rparr>],
         samples = [100 :: int]\<rparr>,
        \<lparr>labels = Some [\<lparr>label_name = Some ''__name__'', label_value = Some ''m''\<rparr>,
                         \<lparr>label_name = Some ''instance'', label_value = Some ''i''\<rparr>],
         samples = [220]\<rparr>]\<rparr>]\<rparr>"
  have k: "list_all keys_present (series_of ?r)"
    by (simp add: series_of_def result_series_def keys_present_def)
  have p: "series_rel labels_reordered ?r ?r2"
    by (simp add: series_rel_def labels_reordered_def labels_permuted_def)
  have n: "normalize ?r = Inr ?r2"
    by code_simp
  from normalize_labels [OF k] obtain r' where
    1: "normalize ?r = Inr r'"
    and 2: "\<forall>r2. series_rel labels_reordered ?r r2 \<longrightarrow> normalize r2 = Inr r'"
    by (elim exE conjE)
  from 1 n have "r' = ?r2" by simp
  with 2 p have "normalize ?r2 = Inr ?r2" by blast
  with n show ?thesis by simp
qed

text \<open>As the claim is stated it fails for two labels of one name and different values:
  each input order gives its own output. A series without labels makes the normaliser
  raise.\<close>

theorem normalize_labels_counterexample:
  "normalize \<lparr>results = Some [\<lparr>timeseries = Some
       [\<lparr>labels = Some [\<lparr>label_name = Some ''a'', label_value = Some ''1''\<rparr>,
                         \<lparr>label_name = Some ''a'', label_value = Some ''2''\<rparr>],
         samples = [220 :: int]\<rparr>]\<rparr>]\<rparr>
   = Inr \<lparr>results = Some [\<lparr>timeseries = Some
       [\<lparr>labels = Some [\<lparr>label_name = Some ''a'', label_value = Some ''1''\<rparr>,
                         \<lparr>label_name = Some ''a'', label_value = Some ''2''\<rparr>],
         samples = [220]\<rparr>]\<rparr>]\<rparr>
  \<and> normalize \<lparr>results = Some [\<lparr>timeseries = Some
       [\<lparr>labels = Some [\<lparr>label_name = Some ''a'', label_value = Some ''2''\<rparr>,
                         \<lparr>label_name = Some ''a'', label_value = Some ''1''\<rparr>],
         samples = [220 :: int]\<rparr>]\<rparr>]\<rparr>
   = Inr \<lparr>results = Some [\<lparr>timeseries = Some
       [\<lparr>labels = Some [\<lparr>label_name = Some ''a'', label_value = Some ''2''\<rparr>,
                         \<lparr>label_name = Some ''a'', label_value = Some ''1''\<rparr>],
         samples = [220]\<rparr>]\<rparr>]\<rparr>
  \<and> normalize \<lparr>results = Some [\<lparr>timeseries = Some
       [\<lparr>labels = None, samples = [220 :: int]\<rparr>]\<rparr>]\<rparr>
   = Inl (KeyError ''labels'')"
  by code_simp

end
